theory Spec2Isabelle
  imports Main "HOL-Library.Char_ord" "HOL-Library.List_Lexorder" "HOL-Library.Sublist"
    "HOL-Library.Multiset"
begin

section \<open>Python string primitives used by the schema printer\<close>

definition chr_nl :: char where "chr_nl = CHR 0x0A"
definition chr_tab :: char where "chr_tab = CHR 0x09"
definition chr_sp :: char where "chr_sp = CHR 0x20"
definition chr_dq :: char where "chr_dq = CHR 0x22"
definition chr_bs :: char where "chr_bs = CHR 0x5C"

text \<open>The block-string delimiter, three double quotes.\<close>

definition triple_quote :: string where
  "triple_quote = [chr_dq, chr_dq, chr_dq]"

text \<open>\<^verbatim>\<open>sep.join(xs)\<close>.\<close>

fun str_join :: "string \<Rightarrow> string list \<Rightarrow> string" where
  "str_join sep [] = []"
| "str_join sep [x] = x"
| "str_join sep (x # y # ys) = x @ sep @ str_join sep (y # ys)"

text \<open>\<^verbatim>\<open>s.split("\n")\<close>: the pieces between line feeds; the first argument is the piece being
  collected.\<close>

fun split_acc :: "string \<Rightarrow> string \<Rightarrow> string list" where
  "split_acc cur [] = [cur]"
| "split_acc cur (c # cs) =
     (if c = chr_nl then cur # split_acc [] cs else split_acc (cur @ [c]) cs)"

definition split_nl :: "string \<Rightarrow> string list" where
  "split_nl s = split_acc [] s"

text \<open>\<^verbatim>\<open>str(n)\<close> on an integer: decimal digits, with a minus sign when negative.\<close>

definition digit_char :: "nat \<Rightarrow> char" where
  "digit_char d = char_of (48 + d)"

fun digits_of :: "nat \<Rightarrow> string" where
  "digits_of n = (if n < 10 then [digit_char n] else digits_of (n div 10) @ [digit_char (n mod 10)])"

declare digits_of.simps [simp del]

definition py_str_int :: "int \<Rightarrow> string" where
  "py_str_int i = (if i < 0 then CHR ''-'' # digits_of (nat (- i)) else digits_of (nat i))"

section \<open>Errors\<close>

text \<open>
  The exceptions the printer can raise: the two ways in which building the line-splitting
  pattern is rejected by the \<^verbatim>\<open>re\<close> module (\<^verbatim>\<open>re.error\<close> "min repeat greater than max
  repeat", and \<^verbatim>\<open>OverflowError\<close> "the repetition number is too large"), the assertion of the type
  dispatcher, and an index out of range.
\<close>

datatype error = PatternError | OverflowError | AssertionError | IndexError

definition bind_err :: "error + 'a \<Rightarrow> ('a \<Rightarrow> error + 'b) \<Rightarrow> error + 'b" where
  "bind_err m f = (case m of Inl e \<Rightarrow> Inl e | Inr x \<Rightarrow> f x)"

text \<open>Evaluating a list of computations from left to right; the first exception wins.\<close>

fun sequence_err :: "(error + 'a) list \<Rightarrow> error + 'a list" where
  "sequence_err [] = Inr []"
| "sequence_err (m # ms) = bind_err m (\<lambda>x. bind_err (sequence_err ms) (\<lambda>xs. Inr (x # xs)))"

section \<open>The line-splitting pattern and \<^verbatim>\<open>re.split\<close>\<close>

text \<open>
  \<^verbatim>\<open>_break_lines\<close> builds the pattern \<^verbatim>\<open>((?: |^).{15,%s}(?= |$))\<close> with \<^verbatim>\<open>str(max_len - 40)\<close>
  in place of \<^verbatim>\<open>%s\<close>. What the \<^verbatim>\<open>re\<close> module makes of it depends on that number \<open>n\<close>:
  \<^item> \<open>n < 0\<close>: the text \<^verbatim>\<open>{15,-5}\<close> is not a repetition, so the braces and what is between them
    are literal characters following one arbitrary character;
  \<^item> \<open>n \<ge> MAXREPEAT\<close>: the pattern is rejected with \<^verbatim>\<open>OverflowError\<close>;
  \<^item> \<open>n < 15\<close>: the pattern is rejected with \<^verbatim>\<open>re.error\<close>;
  \<^item> otherwise: between 15 and \<open>n\<close> characters other than a line feed, as many as possible.
\<close>

datatype pattern = Repeat nat | Literal string

definition MAXREPEAT :: int where
  "MAXREPEAT = 4294967295"

definition compile_split_re :: "int \<Rightarrow> error + pattern" where
  "compile_split_re max_len =
     (let n = max_len - 40 in
      if n < 0 then Inr (Literal (''{15,'' @ py_str_int n @ ''}''))
      else if MAXREPEAT \<le> n then Inl OverflowError
      else if n < 15 then Inl PatternError
      else Inr (Repeat (nat n)))"

text \<open>\<^verbatim>\<open>$\<close> holds at the end of the text and just before a line feed that ends the text;
  the lookahead \<^verbatim>\<open>(?= |$)\<close> holds before a space or where \<^verbatim>\<open>$\<close> holds. Both read the text that
  remains.\<close>

definition at_dollar :: "string \<Rightarrow> bool" where
  "at_dollar r = (r = [] \<or> r = [chr_nl])"

definition lookahead :: "string \<Rightarrow> bool" where
  "lookahead r = ((case r of [] \<Rightarrow> False | c # _ \<Rightarrow> c = chr_sp) \<or> at_dollar r)"

text \<open>The greedy repetition followed by the lookahead: the engine takes as many characters as
  it can (\<open>k\<close>), and gives them back one at a time, down to \<open>lo\<close>, until the lookahead holds.\<close>

fun backtrack :: "string \<Rightarrow> nat \<Rightarrow> nat \<Rightarrow> nat option" where
  "backtrack r lo 0 = (if lo = 0 \<and> lookahead r then Some 0 else None)"
| "backtrack r lo (Suc k) =
     (if Suc k < lo then None
      else if lookahead (drop (Suc k) r) then Some (Suc k)
      else backtrack r lo k)"

definition repeat_dot :: "nat \<Rightarrow> nat \<Rightarrow> string \<Rightarrow> nat option" where
  "repeat_dot lo hi r =
     (let m = min hi (length (takeWhile (\<lambda>c. c \<noteq> chr_nl) r))
      in if m < lo then None else backtrack r lo m)"

definition literal_body :: "string \<Rightarrow> string \<Rightarrow> nat option" where
  "literal_body lit r =
     (case r of
        [] \<Rightarrow> None
      | c # r' \<Rightarrow>
          if c \<noteq> chr_nl \<and> prefix lit r' \<and> lookahead (drop (length lit) r')
          then Some (Suc (length lit)) else None)"

text \<open>What follows \<^verbatim>\<open>(?: |^)\<close>, up to and including the lookahead: the number of characters
  taken, if it matches at the start of \<open>r\<close>.\<close>

fun body :: "pattern \<Rightarrow> string \<Rightarrow> nat option" where
  "body (Repeat n) r = repeat_dot 15 n r"
| "body (Literal lit) r = literal_body lit r"

text \<open>A match of the whole pattern at the start of \<open>r\<close>; \<open>at_start\<close> says that \<open>r\<close> is the whole
  line (\<^verbatim>\<open>^\<close> holds nowhere else). The alternative with the space is tried first.\<close>

definition match_here :: "pattern \<Rightarrow> bool \<Rightarrow> string \<Rightarrow> nat option" where
  "match_here p at_start r =
     (case (case r of [] \<Rightarrow> None
                    | c # r' \<Rightarrow> if c = chr_sp then map_option Suc (body p r') else None) of
        Some n \<Rightarrow> Some n
      | None \<Rightarrow> if at_start then body p r else None)"

text \<open>The leftmost match in \<open>r\<close>: the text skipped before it, the match, and the rest.\<close>

fun search :: "pattern \<Rightarrow> bool \<Rightarrow> string \<Rightarrow> (string \<times> string \<times> string) option" where
  "search p at_start [] =
     (case match_here p at_start [] of
        Some n \<Rightarrow> Some ([], take n [], drop n [])
      | None \<Rightarrow> None)"
| "search p at_start (c # r) =
     (case match_here p at_start (c # r) of
        Some n \<Rightarrow> Some ([], take n (c # r), drop n (c # r))
      | None \<Rightarrow> map_option (\<lambda>(s, m, t). (c # s, m, t)) (search p False r))"

text \<open>A match is never empty and lies within the text, which is what makes the split below
  terminate.\<close>

lemma backtrack_bounds: "backtrack r lo k = Some n \<Longrightarrow> lo \<le> n \<and> n \<le> k \<and> lookahead (drop n r)"
  by (induction k) (auto split: if_splits)

lemma repeat_dot_bounds:
  "repeat_dot lo hi r = Some n \<Longrightarrow>
     lo \<le> n \<and> n \<le> hi \<and> n \<le> length (takeWhile (\<lambda>c. c \<noteq> chr_nl) r) \<and> lookahead (drop n r)"
  by (auto simp: repeat_dot_def Let_def split: if_splits dest!: backtrack_bounds)

lemma body_pos: "body p r = Some n \<Longrightarrow> 0 < n \<and> n \<le> length r"
proof (cases p)
  case (Repeat N)
  assume "body p r = Some n"
  with Repeat have "15 \<le> n \<and> n \<le> length (takeWhile (\<lambda>c. c \<noteq> chr_nl) r)"
    using repeat_dot_bounds[of 15 N r n] by simp
  moreover have "length (takeWhile (\<lambda>c. c \<noteq> chr_nl) r) \<le> length r"
    by (rule length_takeWhile_le)
  ultimately show ?thesis by simp
next
  case (Literal lit)
  assume "body p r = Some n"
  with Literal show ?thesis
    by (auto simp: literal_body_def prefix_def split: list.splits if_splits)
qed

lemma match_here_pos: "match_here p b r = Some n \<Longrightarrow> 0 < n \<and> n \<le> length r"
  by (auto simp: match_here_def split: list.splits if_splits option.splits dest!: body_pos)

lemma search_decomp:
  "search p b r = Some (s, m, t) \<Longrightarrow> r = s @ m @ t \<and> m \<noteq> []"
proof (induction r arbitrary: b s)
  case Nil
  then show ?case by (auto split: option.splits dest: match_here_pos)
next
  case (Cons c r)
  show ?case
  proof (cases "match_here p b (c # r)")
    case None
    with Cons.prems obtain s' where "search p False r = Some (s', m, t)" "s = c # s'"
      by auto
    with Cons.IH show ?thesis by auto
  next
    case (Some n)
    with Cons.prems match_here_pos[OF Some] show ?thesis by auto
  qed
qed

text \<open>
  \<^verbatim>\<open>re.split\<close> with the pattern's one capturing group: the text before the first match, the
  match, the text between it and the next match, and so on up to the text after the last
  match. The search for the next match starts where the previous match ended.
\<close>

function re_split :: "pattern \<Rightarrow> bool \<Rightarrow> string \<Rightarrow> string list" where
  "re_split p at_start r =
     (case search p at_start r of
        None \<Rightarrow> [r]
      | Some (s, m, t) \<Rightarrow> s # m # re_split p False t)"
  by pat_completeness auto
termination
  by (relation "measure (\<lambda>(p, b, r). length r)") (auto dest: search_decomp)

declare re_split.simps [simp del]

section \<open>Line wrapping\<close>

text \<open>The loop \<^verbatim>\<open>for idx in range(3, len(parts), 2)\<close> over \<^verbatim>\<open>parts[3:]\<close>: each round reads
  \<^verbatim>\<open>parts[idx]\<close> and \<^verbatim>\<open>parts[idx + 1]\<close>, and the second read is out of range when only one
  part is left.\<close>

fun sublines_rest :: "string list \<Rightarrow> error + string list" where
  "sublines_rest [] = Inr []"
| "sublines_rest [m] = Inl IndexError"
| "sublines_rest (m # g # rest) = bind_err (sublines_rest rest) (\<lambda>xs. Inr ((tl m @ g) # xs))"

definition break_lines :: "string \<Rightarrow> int \<Rightarrow> error + string list" where
  "break_lines line max_len =
     (if int (length line) < max_len + 5 then Inr [line]
      else bind_err (compile_split_re max_len) (\<lambda>p.
        let parts = re_split p True line in
        if length parts < 4 then Inr [line]
        else bind_err (sublines_rest (drop 3 parts))
               (\<lambda>rest. Inr ((parts ! 0 @ parts ! 1 @ parts ! 2) # rest))))"

section \<open>Descriptions\<close>

text \<open>\<^verbatim>\<open>line.replace('"""', '\\"""')\<close>: occurrences are found from left to right and do not
  overlap.\<close>

fun escape_quote :: "string \<Rightarrow> string" where
  "escape_quote (a # b # c # cs) =
     (if [a, b, c] = triple_quote then chr_bs # triple_quote @ escape_quote cs
      else a # escape_quote (b # c # cs))"
| "escape_quote cs = cs"

text \<open>The \<^verbatim>\<open>description\<close> attribute of a definition: \<^verbatim>\<open>None\<close>, a string, or (what
  \<^verbatim>\<open>_description_lines\<close> allows for) a callable that returns the string.\<close>

datatype description = DescStr string | DescCallable string

text \<open>Python truth of the attribute: \<^verbatim>\<open>None\<close> and the empty string are false, a callable is
  true.\<close>

definition desc_truthy :: "description option \<Rightarrow> bool" where
  "desc_truthy d =
     (case d of
        None \<Rightarrow> False
      | Some (DescStr s) \<Rightarrow> s \<noteq> []
      | Some (DescCallable f) \<Rightarrow> True)"

definition MAX_DESC_LEN :: int where
  "MAX_DESC_LEN = 120"

text \<open>The loop of \<^verbatim>\<open>_description_lines\<close> over the raw lines; \<open>lines\<close> is the list built so
  far.\<close>

fun description_lines_loop :: "string list \<Rightarrow> int \<Rightarrow> string list \<Rightarrow> error + string list" where
  "description_lines_loop [] max_len lines = Inr lines"
| "description_lines_loop (line # raw_lines) max_len lines =
     (if line = [] then description_lines_loop raw_lines max_len (lines @ [line])
      else bind_err (break_lines line max_len)
             (\<lambda>subs. description_lines_loop raw_lines max_len (lines @ subs)))"

definition description_lines :: "description \<Rightarrow> int \<Rightarrow> error + string list" where
  "description_lines description max_len =
     (let raw_lines = (case description of
                         DescStr s \<Rightarrow> split_nl s
                       | DescCallable s \<Rightarrow> split_nl s)
      in description_lines_loop raw_lines max_len [])"

text \<open>\<^verbatim>\<open>_print_description(definition, indentation, first_in_block)\<close>, given the definition's
  \<^verbatim>\<open>description\<close> attribute. Reading \<^verbatim>\<open>lines[0]\<close> of an empty list raises.\<close>

definition print_description :: "description option \<Rightarrow> string \<Rightarrow> bool \<Rightarrow> error + string" where
  "print_description d indentation first_in_block =
     (case d of
        None \<Rightarrow> Inr []
      | Some text \<Rightarrow>
        if \<not> desc_truthy d then Inr []
        else
        bind_err (description_lines text (MAX_DESC_LEN - int (length indentation)))
          (\<lambda>lines.
             let description =
                   (if indentation \<noteq> [] \<and> \<not> first_in_block
                    then [chr_nl] @ indentation @ triple_quote
                    else indentation @ triple_quote)
             in case lines of
                  [] \<Rightarrow> Inl IndexError
                | l0 # ls \<Rightarrow>
                    if length lines = 1 \<and> length l0 < 70 \<and> length l0 > 0 \<and> last l0 \<noteq> chr_dq
                    then Inr (description @ escape_quote l0 @ triple_quote @ [chr_nl])
                    else
                      let has_leading_space = (l0 = [] \<or> hd l0 \<in> {chr_sp, chr_tab});
                          description =
                            (if \<not> has_leading_space then description @ [chr_nl] else description)
                      in Inr (description @ concat (map escape_quote lines)
                              @ indentation @ triple_quote @ [chr_nl])))"

section \<open>The schema model read by the printer\<close>

text \<open>
  The printer reads a schema built elsewhere. A reference to another type (the type of a
  field or of an argument, an implemented interface, a union member, a root operation type) is
  represented by the text that \<^verbatim>\<open>str()\<close>, or the \<^verbatim>\<open>name\<close> attribute, gives for it, which is
  all the printer uses of it. Ordered dictionaries are association lists in insertion order.
\<close>

datatype pyvalue = PyStr string | PyInt int | PyBool bool

text \<open>
  Two names imported from other modules are parameters of the model: the constant
  \<^verbatim>\<open>DEFAULT_DEPRECATION_REASON\<close>, and \<open>literal_text v t\<close> for the text
  \<^verbatim>\<open>print_ast(ast_from_value(v, t))\<close> of a value and an optional type.
\<close>

record printer_env =
  DEFAULT_DEPRECATION_REASON :: string
  literal_text :: "pyvalue \<Rightarrow> string option \<Rightarrow> string"

text \<open>Arguments and the fields of input objects have the same attributes.\<close>

record GraphQLArgument =
  arg_type :: string
  arg_default_value :: "pyvalue option"
  arg_description :: "description option"

record GraphQLField =
  field_type :: string
  field_args :: "(string \<times> GraphQLArgument) list"
  field_deprecation_reason :: "string option"
  field_description :: "description option"

record GraphQLEnumValue =
  value_name :: string
  value_description :: "description option"
  value_deprecation_reason :: "string option"

record GraphQLDirective =
  dir_name :: string
  dir_description :: "description option"
  dir_args :: "(string \<times> GraphQLArgument) list"
  dir_locations :: "string list"

text \<open>
  The attributes \<^verbatim>\<open>fields\<close>, \<^verbatim>\<open>interfaces\<close> and \<^verbatim>\<open>types\<close> of a type are not stored: the type
  classes (in the type definition module, outside the printer's file) compute them when they
  are first read, from what the type was built with, and assert it to be well formed. Reading
  one of them can therefore raise. \<open>Value v\<close> is an attribute built from \<open>v\<close>; \<open>Raises e\<close> is an
  attribute whose computation raises \<open>e\<close> (a callable that raises, a member of the wrong
  class, and so on).
\<close>

datatype 'a attribute = Value 'a | Raises error

text \<open>Reading \<^verbatim>\<open>type.interfaces\<close>: an empty list of interfaces is accepted.\<close>

fun read_attribute :: "'a attribute \<Rightarrow> error + 'a" where
  "read_attribute (Value v) = Inr v"
| "read_attribute (Raises e) = Inl e"

text \<open>Reading \<^verbatim>\<open>type.fields\<close> of an object, interface or input object type, or \<^verbatim>\<open>type.types\<close>
  of a union type: the type classes assert that the field map, or the list of member types,
  is not empty, so the read of an empty one raises \<^verbatim>\<open>AssertionError\<close>.\<close>

fun read_nonempty :: "'a list attribute \<Rightarrow> error + 'a list" where
  "read_nonempty (Value xs) = (if xs = [] then Inl AssertionError else Inr xs)"
| "read_nonempty (Raises e) = Inl e"

text \<open>The classes that \<^verbatim>\<open>_print_type\<close> tells apart, each with its name and description, and
  \<open>OtherType\<close> for an object of any other class. The values of an enum type are a plain
  attribute.\<close>

datatype GraphQLType =
    GraphQLScalarType string "description option"
  | GraphQLObjectType string "description option" "string list attribute"
      "(string \<times> GraphQLField) list attribute"
  | GraphQLInterfaceType string "description option" "(string \<times> GraphQLField) list attribute"
  | GraphQLUnionType string "description option" "string list attribute"
  | GraphQLEnumType string "description option" "GraphQLEnumValue list"
  | GraphQLInputObjectType string "description option"
      "(string \<times> GraphQLArgument) list attribute"
  | OtherType

text \<open>What the accessors of the schema return: \<^verbatim>\<open>get_query_type()\<close>,
  \<^verbatim>\<open>get_mutation_type()\<close>, \<^verbatim>\<open>get_subscription_type()\<close> (\<^verbatim>\<open>None\<close> or a type, which is true
  as a condition), \<^verbatim>\<open>get_directives()\<close> and the items of \<^verbatim>\<open>get_type_map()\<close>, a dictionary,
  whose keys are therefore distinct.\<close>

record GraphQLSchema =
  query_type :: "string option"
  mutation_type :: "string option"
  subscription_type :: "string option"
  directives :: "GraphQLDirective list"
  type_map :: "(string \<times> GraphQLType) list"

section \<open>The printer\<close>

definition is_spec_directive :: "string \<Rightarrow> bool" where
  "is_spec_directive directive_name = (directive_name \<in> set [''skip'', ''include'', ''deprecated''])"

definition is_introspection_type :: "string \<Rightarrow> bool" where
  "is_introspection_type typename = prefix ''__'' typename"

definition builtin_scalars :: "string set" where
  "builtin_scalars = {''String'', ''Boolean'', ''Int'', ''Float'', ''ID''}"

definition is_builtin_scalar :: "string \<Rightarrow> bool" where
  "is_builtin_scalar typename = (typename \<in> builtin_scalars)"

definition is_defined_type :: "string \<Rightarrow> bool" where
  "is_defined_type typename = (\<not> is_introspection_type typename \<and> \<not> is_builtin_scalar typename)"

definition print_schema_definition :: "GraphQLSchema \<Rightarrow> string" where
  "print_schema_definition schema =
     (let operation_types =
            (case query_type schema of None \<Rightarrow> [] | Some t \<Rightarrow> [''  query: '' @ t])
          @ (case mutation_type schema of None \<Rightarrow> [] | Some t \<Rightarrow> [''  mutation: '' @ t])
          @ (case subscription_type schema of None \<Rightarrow> [] | Some t \<Rightarrow> [''  subscription: '' @ t])
      in ''schema {'' @ [chr_nl] @ str_join [chr_nl] operation_types @ [chr_nl] @ ''}'')"

definition print_deprecated :: "printer_env \<Rightarrow> string option \<Rightarrow> string" where
  "print_deprecated env reason =
     (case reason of
        None \<Rightarrow> []
      | Some r \<Rightarrow>
          if r \<in> set [[], DEFAULT_DEPRECATION_REASON env] then '' @deprecated''
          else '' @deprecated(reason: '' @ literal_text env (PyStr r) None @ '')'')"

definition print_input_value :: "printer_env \<Rightarrow> string \<Rightarrow> GraphQLArgument \<Rightarrow> string" where
  "print_input_value env name arg =
     (let default_value =
            (case arg_default_value arg of
               Some v \<Rightarrow> '' = '' @ literal_text env v (Some (arg_type arg))
             | None \<Rightarrow> [])
      in name @ '': '' @ arg_type arg @ default_value)"

text \<open>The line of one argument or input field in a block: its description, indented by two
  spaces and first in the block when its index is 0, and the input value.\<close>

definition input_value_line ::
  "printer_env \<Rightarrow> nat \<times> string \<times> GraphQLArgument \<Rightarrow> error + string" where
  "input_value_line env = (\<lambda>(idx, arg_name, arg).
     bind_err (print_description (arg_description arg) ''  '' (idx = 0))
       (\<lambda>d. Inr (d @ ''  '' @ print_input_value env arg_name arg)))"

definition print_args :: "printer_env \<Rightarrow> (string \<times> GraphQLArgument) list \<Rightarrow> error + string" where
  "print_args env args =
     (if args = [] then Inr []
      else if list_all (\<lambda>(arg_name, arg). \<not> desc_truthy (arg_description arg)) args
      then Inr (''('' @ str_join '', '' (map (\<lambda>(arg_name, arg). print_input_value env arg_name arg) args)
                @ '')'')
      else bind_err (sequence_err (map (input_value_line env) (enumerate 0 args)))
             (\<lambda>lines. Inr (''('' @ [chr_nl] @ str_join [chr_nl] lines @ [chr_nl] @ '')'')))"

definition field_line :: "printer_env \<Rightarrow> nat \<times> string \<times> GraphQLField \<Rightarrow> error + string" where
  "field_line env = (\<lambda>(idx, f_name, f).
     bind_err (print_description (field_description f) ''  '' (idx = 0)) (\<lambda>d.
     bind_err (print_args env (field_args f)) (\<lambda>a.
       Inr (d @ ''  '' @ f_name @ a @ '': '' @ field_type f
            @ print_deprecated env (field_deprecation_reason f)))))"

text \<open>\<^verbatim>\<open>_print_fields(type)\<close> reads \<^verbatim>\<open>type.fields\<close> and prints one line for each field.\<close>

definition print_fields ::
  "printer_env \<Rightarrow> (string \<times> GraphQLField) list attribute \<Rightarrow> error + string" where
  "print_fields env fields_attribute =
     bind_err (read_nonempty fields_attribute) (\<lambda>type_fields.
     bind_err (sequence_err (map (field_line env) (enumerate 0 type_fields)))
       (\<lambda>lines. Inr (str_join [chr_nl] lines)))"

definition enum_value_line :: "printer_env \<Rightarrow> nat \<times> GraphQLEnumValue \<Rightarrow> error + string" where
  "enum_value_line env = (\<lambda>(idx, v).
     bind_err (print_description (value_description v) ''  '' (idx = 0))
       (\<lambda>d. Inr (d @ ''  '' @ value_name v
                  @ print_deprecated env (value_deprecation_reason v))))"

definition print_scalar :: "string \<Rightarrow> description option \<Rightarrow> error + string" where
  "print_scalar name desc =
     bind_err (print_description desc [] True) (\<lambda>d. Inr (d @ ''scalar '' @ name))"

text \<open>\<^verbatim>\<open>_print_object\<close> reads \<^verbatim>\<open>type.interfaces\<close> first, then prints the description and the
  fields.\<close>

definition print_object ::
  "printer_env \<Rightarrow> string \<Rightarrow> description option \<Rightarrow> string list attribute
     \<Rightarrow> (string \<times> GraphQLField) list attribute \<Rightarrow> error + string" where
  "print_object env name desc interfaces_attribute fields_attribute =
     bind_err (read_attribute interfaces_attribute) (\<lambda>interfaces.
     let implemented_interfaces =
           (if interfaces \<noteq> [] then '' implements '' @ str_join '', '' interfaces else [])
     in bind_err (print_description desc [] True) (\<lambda>d.
        bind_err (print_fields env fields_attribute) (\<lambda>fs.
          Inr (d @ ''type '' @ name @ implemented_interfaces @ '' {'' @ [chr_nl]
               @ fs @ [chr_nl] @ ''}''))))"

definition print_interface ::
  "printer_env \<Rightarrow> string \<Rightarrow> description option \<Rightarrow> (string \<times> GraphQLField) list attribute
     \<Rightarrow> error + string" where
  "print_interface env name desc fields_attribute =
     bind_err (print_description desc [] True) (\<lambda>d.
     bind_err (print_fields env fields_attribute) (\<lambda>fs.
       Inr (d @ ''interface '' @ name @ '' {'' @ [chr_nl] @ fs @ [chr_nl] @ ''}'')))"

text \<open>\<^verbatim>\<open>_print_union\<close> prints the description, then reads \<^verbatim>\<open>type.types\<close>.\<close>

definition print_union ::
  "string \<Rightarrow> description option \<Rightarrow> string list attribute \<Rightarrow> error + string" where
  "print_union name desc types_attribute =
     bind_err (print_description desc [] True) (\<lambda>d.
     bind_err (read_nonempty types_attribute) (\<lambda>types.
       Inr (d @ ''union '' @ name @ '' = '' @ str_join '' | '' types)))"

definition print_enum ::
  "printer_env \<Rightarrow> string \<Rightarrow> description option \<Rightarrow> GraphQLEnumValue list \<Rightarrow> error + string" where
  "print_enum env name desc vals =
     bind_err (sequence_err (map (enum_value_line env) (enumerate 0 vals))) (\<lambda>lines.
     let enum_values_str = str_join [chr_nl] lines in
     bind_err (print_description desc [] True) (\<lambda>d.
       Inr (d @ ''enum '' @ name @ '' {'' @ [chr_nl] @ enum_values_str @ [chr_nl] @ ''}'')))"

text \<open>\<^verbatim>\<open>_print_input_object\<close> reads \<^verbatim>\<open>type.fields\<close> and prints the field lines before the
  description.\<close>

definition print_input_object ::
  "printer_env \<Rightarrow> string \<Rightarrow> description option \<Rightarrow> (string \<times> GraphQLArgument) list attribute
     \<Rightarrow> error + string" where
  "print_input_object env name desc fields_attribute =
     bind_err (read_nonempty fields_attribute) (\<lambda>type_fields.
     bind_err (sequence_err (map (input_value_line env) (enumerate 0 type_fields))) (\<lambda>lines.
     let fields_str = str_join [chr_nl] lines in
     bind_err (print_description desc [] True) (\<lambda>d.
       Inr (d @ ''input '' @ name @ '' {'' @ [chr_nl] @ fields_str @ [chr_nl] @ ''}''))))"

text \<open>The dispatcher: the chain of \<^verbatim>\<open>isinstance\<close> tests, and the assertion that what is left
  is an input object.\<close>

fun print_type :: "printer_env \<Rightarrow> GraphQLType \<Rightarrow> error + string" where
  "print_type env (GraphQLScalarType name desc) = print_scalar name desc"
| "print_type env (GraphQLObjectType name desc interfaces_attribute fields_attribute) =
     print_object env name desc interfaces_attribute fields_attribute"
| "print_type env (GraphQLInterfaceType name desc fields_attribute) =
     print_interface env name desc fields_attribute"
| "print_type env (GraphQLUnionType name desc types_attribute) =
     print_union name desc types_attribute"
| "print_type env (GraphQLEnumType name desc vals) = print_enum env name desc vals"
| "print_type env (GraphQLInputObjectType name desc fields_attribute) =
     print_input_object env name desc fields_attribute"
| "print_type env OtherType = Inl AssertionError"

text \<open>A type that the dispatcher recognises and whose attributes can be read.\<close>

fun printable :: "GraphQLType \<Rightarrow> bool" where
  "printable (GraphQLScalarType name desc) = True"
| "printable (GraphQLObjectType name desc interfaces_attribute fields_attribute) =
     (\<not> isl (read_attribute interfaces_attribute) \<and> \<not> isl (read_nonempty fields_attribute))"
| "printable (GraphQLInterfaceType name desc fields_attribute) =
     (\<not> isl (read_nonempty fields_attribute))"
| "printable (GraphQLUnionType name desc types_attribute) = (\<not> isl (read_nonempty types_attribute))"
| "printable (GraphQLEnumType name desc vals) = True"
| "printable (GraphQLInputObjectType name desc fields_attribute) =
     (\<not> isl (read_nonempty fields_attribute))"
| "printable OtherType = False"

definition print_directive :: "printer_env \<Rightarrow> GraphQLDirective \<Rightarrow> error + string" where
  "print_directive env directive =
     bind_err (print_description (dir_description directive) [] True) (\<lambda>d.
     bind_err (print_args env (dir_args directive)) (\<lambda>a.
       Inr (d @ ''directive @'' @ dir_name directive @ a @ '' on ''
            @ str_join '' | '' (dir_locations directive))))"

text \<open>The three lists that \<^verbatim>\<open>_print_filtered_schema\<close> concatenates are computed in this
  order; the items of the type map are sorted (by their keys, which are distinct).\<close>

definition print_filtered_schema ::
  "printer_env \<Rightarrow> GraphQLSchema \<Rightarrow> (string \<Rightarrow> bool) \<Rightarrow> (string \<Rightarrow> bool) \<Rightarrow> error + string" where
  "print_filtered_schema env schema directive_filter type_filter =
     bind_err
       (sequence_err
          ([Inr (print_schema_definition schema)]
           @ map (print_directive env)
               (filter (\<lambda>directive. directive_filter (dir_name directive))
                  (directives schema))
           @ map (\<lambda>(typename, type). print_type env type)
               (filter (\<lambda>(typename, type). type_filter typename)
                  (sort_key fst (type_map schema)))))
       (\<lambda>blocks. Inr (str_join [chr_nl, chr_nl] blocks @ [chr_nl]))"

definition print_schema :: "printer_env \<Rightarrow> GraphQLSchema \<Rightarrow> error + string" where
  "print_schema env schema =
     print_filtered_schema env schema (\<lambda>n. \<not> is_spec_directive n) is_defined_type"

definition print_introspection_schema :: "printer_env \<Rightarrow> GraphQLSchema \<Rightarrow> error + string" where
  "print_introspection_schema env schema =
     print_filtered_schema env schema is_spec_directive is_introspection_type"

section \<open>Sample inputs\<close>

text \<open>
  The literal text of the values used in the examples, as the imported
  \<^verbatim>\<open>print_ast(ast_from_value(v, t))\<close> gives it: a string of printable characters (for a type
  that is not an enum type) is escaped as JSON does, twice, once by each of the two
  functions, and put in double quotes; an integer is written in decimal, with \<^verbatim>\<open>.0\<close> after
  it when the named type is \<^verbatim>\<open>Float\<close> (for an integer of less than 16 digits); a truth value is
  \<^verbatim>\<open>true\<close> or \<^verbatim>\<open>false\<close>.
\<close>

fun json_escape :: "string \<Rightarrow> string" where
  "json_escape [] = []"
| "json_escape (c # cs) =
     (if c = chr_dq \<or> c = chr_bs then chr_bs # c # json_escape cs else c # json_escape cs)"

definition named_type :: "string option \<Rightarrow> string" where
  "named_type t =
     (case t of None \<Rightarrow> [] | Some s \<Rightarrow> filter (\<lambda>c. c \<notin> {CHR ''['', CHR '']'', CHR ''!''}) s)"

fun sample_literal :: "pyvalue \<Rightarrow> string option \<Rightarrow> string" where
  "sample_literal (PyStr s) t = [chr_dq] @ json_escape (json_escape s) @ [chr_dq]"
| "sample_literal (PyInt i) t =
     (if named_type t = ''Float'' then py_str_int i @ ''.0'' else py_str_int i)"
| "sample_literal (PyBool b) t = (if b then ''true'' else ''false'')"

definition sample_env :: printer_env where
  "sample_env = \<lparr>DEFAULT_DEPRECATION_REASON = ''No longer supported'',
                  literal_text = sample_literal\<rparr>"

text \<open>A schema for the examples: one root type, a specification directive and a directive
  of its own, and in its type map an object type whose second field has described
  arguments, an interface type, an input object type, a scalar type of its own, a builtin
  scalar, an introspection type and an enum type.\<close>

definition sample_schema :: GraphQLSchema where
  "sample_schema =
     \<lparr>query_type = Some ''Query'', mutation_type = None, subscription_type = None,
      directives =
        [\<lparr>dir_name = ''skip'', dir_description = None,
          dir_args = [(''if'', \<lparr>arg_type = ''Boolean!'', arg_default_value = None,
                               arg_description = None\<rparr>)],
          dir_locations = [''FIELD'', ''FRAGMENT_SPREAD'']\<rparr>,
         \<lparr>dir_name = ''limit'', dir_description = None,
          dir_args = [(''max'', \<lparr>arg_type = ''Int'', arg_default_value = Some (PyInt 3),
                                arg_description = None\<rparr>)],
          dir_locations = [''FIELD'', ''QUERY'']\<rparr>],
      type_map =
        [(''Query'', GraphQLObjectType ''Query'' None (Value [])
            (Value
              [(''hello'', \<lparr>field_type = ''String'', field_args = [],
                           field_deprecation_reason = None, field_description = None\<rparr>),
               (''node'', \<lparr>field_type = ''Node'',
                          field_args =
                            [(''first'', \<lparr>arg_type = ''Int'', arg_default_value = Some (PyInt 10),
                                           arg_description = Some (DescStr ''Page size.'')\<rparr>),
                             (''id'', \<lparr>arg_type = ''ID!'', arg_default_value = None,
                                        arg_description = Some (DescStr ''The id.'')\<rparr>)],
                          field_deprecation_reason = Some [],
                          field_description = Some (DescStr ''Looks a node up.'')\<rparr>)])),
         (''String'', GraphQLScalarType ''String'' None),
         (''Node'', GraphQLInterfaceType ''Node'' (Some (DescStr ''An object with an id.''))
            (Value
              [(''id'', \<lparr>field_type = ''ID!'', field_args = [],
                        field_deprecation_reason = None, field_description = None\<rparr>)])),
         (''__Schema'', GraphQLObjectType ''__Schema'' None (Value [])
            (Value
              [(''types'', \<lparr>field_type = ''[__Type!]!'', field_args = [],
                           field_deprecation_reason = None, field_description = None\<rparr>)])),
         (''Filter'', GraphQLInputObjectType ''Filter'' None
            (Value
              [(''max'', \<lparr>arg_type = ''Int'', arg_default_value = None,
                          arg_description = None\<rparr>),
               (''min'', \<lparr>arg_type = ''Int'', arg_default_value = Some (PyInt 0),
                          arg_description = Some (DescStr ''Lower bound.'')\<rparr>)])),
         (''Date'', GraphQLScalarType ''Date'' None),
         (''Color'', GraphQLEnumType ''Color'' None
            [\<lparr>value_name = ''BLUE'', value_description = None,
              value_deprecation_reason = None\<rparr>,
             \<lparr>value_name = ''GREEN'', value_description = Some (DescStr ''green''),
              value_deprecation_reason = Some ''use GREEN2''\<rparr>])]\<rparr>"

text \<open>A schema with a directive whose location ends in a line feed.\<close>

definition stray_newline_schema :: GraphQLSchema where
  "stray_newline_schema =
     \<lparr>query_type = Some ''Query'', mutation_type = None, subscription_type = None,
      directives =
        [\<lparr>dir_name = ''tag'', dir_description = None, dir_args = [],
          dir_locations = [''FIELD'' @ [chr_nl]]\<rparr>],
      type_map =
        [(''Query'', GraphQLObjectType ''Query'' None (Value [])
            (Value
              [(''hello'', \<lparr>field_type = ''String'', field_args = [],
                           field_deprecation_reason = None, field_description = None\<rparr>)]))]\<rparr>"

section \<open>Break points as the specification describes them\<close>

text \<open>
  The specification describes the split as one that looks for break points starting at
  position 0 or after a space, spanning 15 to \<open>max_len - 40\<close> characters, up to the next space
  or the end of the line. \<open>break_span max_len at_line_start m rest\<close> says that the text \<open>m\<close>,
  followed in the line by \<open>rest\<close>, is such a break point: \<open>m\<close> is a space and a span after it,
  or, at the start of the line, a span alone; the span has from 15 to \<open>max_len - 40\<close>
  characters, none of them a line feed; and what follows is a space or the end of the line
  (where a last line feed may still stand).
\<close>

definition span_ok :: "int \<Rightarrow> string \<Rightarrow> bool" where
  "span_ok max_len span =
     (15 \<le> length span \<and> int (length span) \<le> max_len - 40 \<and> chr_nl \<notin> set span)"

definition break_span :: "int \<Rightarrow> bool \<Rightarrow> string \<Rightarrow> string \<Rightarrow> bool" where
  "break_span max_len at_line_start m rest =
     (((case m of [] \<Rightarrow> False | c # span \<Rightarrow> c = chr_sp \<and> span_ok max_len span)
       \<or> (at_line_start \<and> span_ok max_len m))
      \<and> (rest = [] \<or> rest = [chr_nl] \<or> (case rest of [] \<Rightarrow> False | c # r \<Rightarrow> c = chr_sp)))"

text \<open>A line for the examples.\<close>

definition sample_line :: string where
  "sample_line =
     ''The quick brown fox jumps over the lazy dog and keeps running far away into the night''"

section \<open>Properties of the split\<close>

lemma match_here_space: "match_here p False r = Some n \<Longrightarrow> \<exists>r'. r = chr_sp # r'"
  by (auto simp: match_here_def split: list.splits if_splits option.splits)

lemma search_space:
  "search p False r = Some (s, m, t) \<Longrightarrow> \<exists>m'. m = chr_sp # m'"
proof (induction r arbitrary: s)
  case Nil
  then show ?case by (auto split: option.splits dest: match_here_pos)
next
  case (Cons c r)
  show ?case
  proof (cases "match_here p False (c # r)")
    case None
    with Cons.prems obtain s' where "search p False r = Some (s', m, t)"
      by auto
    with Cons.IH show ?thesis by auto
  next
    case (Some n)
    with Cons.prems match_here_pos[OF Some] match_here_space[OF Some] show ?thesis
      by (cases n) auto
  qed
qed

lemma re_split_None: "search p b r = None \<Longrightarrow> re_split p b r = [r]"
  by (simp add: re_split.simps[of p b r])

lemma re_split_Some:
  "search p b r = Some (s, m, t) \<Longrightarrow> re_split p b r = s # m # re_split p False t"
  by (simp add: re_split.simps[of p b r])

lemma re_split_concat: "concat (re_split p b r) = r"
proof (induction "length r" arbitrary: r b rule: less_induct)
  case less
  show ?case
  proof (cases "search p b r")
    case None
    then show ?thesis by (simp add: re_split_None)
  next
    case (Some x)
    obtain s m t where x: "x = (s, m, t)" by (cases x)
    from Some x have d: "r = s @ m @ t" "m \<noteq> []"
      using search_decomp[of p b r s m t] by simp_all
    then have "length t < length r" by simp
    then have "concat (re_split p False t) = t" by (rule less)
    moreover have "re_split p b r = s # m # re_split p False t"
      using Some x by (simp add: re_split_Some)
    ultimately show ?thesis using d by simp
  qed
qed

lemma re_split_odd: "odd (length (re_split p b r))"
proof (induction "length r" arbitrary: r b rule: less_induct)
  case less
  show ?case
  proof (cases "search p b r")
    case None
    then show ?thesis by (simp add: re_split_None)
  next
    case (Some x)
    obtain s m t where x: "x = (s, m, t)" by (cases x)
    from Some x have d: "r = s @ m @ t" "m \<noteq> []"
      using search_decomp[of p b r s m t] by simp_all
    then have "length t < length r" by simp
    then have "odd (length (re_split p False t))" by (rule less)
    moreover have "re_split p b r = s # m # re_split p False t"
      using Some x by (simp add: re_split_Some)
    ultimately show ?thesis by simp
  qed
qed

text \<open>The loop over the matches after the first one never reads out of range, and what it
  strips from each match is the space the match began with.\<close>

lemma sublines_rest_ok:
  "\<exists>subs. sublines_rest (m # re_split p False t) = Inr subs \<and>
          concat (map ((#) chr_sp) subs) = chr_sp # tl m @ t"
proof (induction "length t" arbitrary: t m rule: less_induct)
  case less
  show ?case
  proof (cases "search p False t")
    case None
    then show ?thesis by (simp add: re_split_None bind_err_def)
  next
    case (Some x)
    obtain s m' t' where x: "x = (s, m', t')" by (cases x)
    from Some x have d: "t = s @ m' @ t'" "m' \<noteq> []"
      using search_decomp[of p False t s m' t'] by simp_all
    from Some x obtain m'' where sp: "m' = chr_sp # m''"
      using search_space[of p t s m' t'] by auto
    from d have "length t' < length t" by simp
    then obtain subs where
      subs: "sublines_rest (m' # re_split p False t') = Inr subs"
            "concat (map ((#) chr_sp) subs) = chr_sp # tl m' @ t'"
      using less[of t' m'] by blast
    have "re_split p False t = s # m' # re_split p False t'"
      using Some x by (simp add: re_split_Some)
    then have "sublines_rest (m # re_split p False t) = Inr ((tl m @ s) # subs)"
      using subs(1) by (simp add: bind_err_def)
    moreover have "concat (map ((#) chr_sp) ((tl m @ s) # subs)) = chr_sp # tl m @ t"
      using subs(2) d sp by simp
    ultimately show ?thesis by blast
  qed
qed

lemma str_join_space:
  "str_join [chr_sp] (x # xs) = x @ concat (map ((#) chr_sp) xs)"
  by (induction xs arbitrary: x) auto

lemma break_lines_short:
  "int (length line) < max_len + 5 \<Longrightarrow> break_lines line max_len = Inr [line]"
  by (simp add: break_lines_def)

lemma break_lines_rejected:
  "\<not> int (length line) < max_len + 5 \<Longrightarrow> compile_split_re max_len = Inl e \<Longrightarrow>
     break_lines line max_len = Inl e"
  by (simp add: break_lines_def bind_err_def)

lemma break_lines_compiled:
  assumes long: "\<not> int (length line) < max_len + 5"
    and p: "compile_split_re max_len = Inr p"
  shows "\<exists>subs. break_lines line max_len = Inr subs \<and> str_join [chr_sp] subs = line"
proof -
  define parts where "parts = re_split p True line"
  have unwrapped: "length parts < 4 \<Longrightarrow> ?thesis"
    using long p by (simp add: break_lines_def bind_err_def parts_def)
  show ?thesis
  proof (cases "search p True line")
    case None
    then have "parts = [line]" by (simp add: parts_def re_split_None)
    then show ?thesis using unwrapped by simp
  next
    case (Some x)
    obtain s m t where x: "x = (s, m, t)" by (cases x)
    from Some x have d: "line = s @ m @ t"
      using search_decomp[of p True line s m t] by simp
    have parts1: "parts = s # m # re_split p False t"
      using Some x by (simp add: parts_def re_split_Some)
    show ?thesis
    proof (cases "search p False t")
      case None
      then have "re_split p False t = [t]" by (simp add: re_split_None)
      with parts1 show ?thesis using unwrapped by simp
    next
      case (Some y)
      obtain s' m' t' where y: "y = (s', m', t')" by (cases y)
      from Some y have d': "t = s' @ m' @ t'"
        using search_decomp[of p False t s' m' t'] by simp
      from Some y obtain m'' where sp: "m' = chr_sp # m''"
        using search_space[of p t s' m' t'] by auto
      have parts2: "parts = s # m # s' # m' # re_split p False t'"
        using Some y parts1 by (simp add: re_split_Some)
      obtain rest where
        rest: "sublines_rest (m' # re_split p False t') = Inr rest"
              "concat (map ((#) chr_sp) rest) = chr_sp # tl m' @ t'"
        using sublines_rest_ok[of m' p t'] by blast
      have "break_lines line max_len = Inr ((s @ m @ s') # rest)"
        using long p parts2 rest(1)
        by (simp add: break_lines_def bind_err_def parts_def[symmetric] Let_def)
      moreover have "str_join [chr_sp] ((s @ m @ s') # rest) = line"
        using rest(2) d d' sp by (simp add: str_join_space)
      ultimately show ?thesis by blast
    qed
  qed
qed

lemma compile_split_re_cases:
  "(max_len < 40 \<and> (\<exists>lit. compile_split_re max_len = Inr (Literal lit)))
   \<or> (40 \<le> max_len \<and> max_len < 55 \<and> compile_split_re max_len = Inl PatternError)
   \<or> (55 \<le> max_len \<and> max_len < MAXREPEAT + 40
        \<and> compile_split_re max_len = Inr (Repeat (nat (max_len - 40))))
   \<or> (MAXREPEAT + 40 \<le> max_len \<and> compile_split_re max_len = Inl OverflowError)"
  by (auto simp: compile_split_re_def Let_def MAXREPEAT_def)

text \<open>The two outcomes of the routine: sublines that rejoin to the line, or the rejection of
  the pattern, which needs a long line and a maximum length from 40 to 54, or beyond the
  repetition limit.\<close>

lemma break_lines_outcome:
  "(\<exists>subs. break_lines line max_len = Inr subs \<and> str_join [chr_sp] subs = line)
   \<or> ((\<exists>e. break_lines line max_len = Inl e) \<and> \<not> int (length line) < max_len + 5
       \<and> \<not> max_len < 40 \<and> \<not> (55 \<le> max_len \<and> max_len < MAXREPEAT + 40))"
proof (cases "int (length line) < max_len + 5")
  case True
  then show ?thesis by (simp add: break_lines_short)
next
  case False
  show ?thesis
  proof (cases "compile_split_re max_len")
    case (Inl e)
    then have "break_lines line max_len = Inl e"
      using False by (rule break_lines_rejected[rotated])
    moreover have "\<not> max_len < 40" "\<not> (55 \<le> max_len \<and> max_len < MAXREPEAT + 40)"
      using Inl compile_split_re_cases[of max_len] by (auto simp: MAXREPEAT_def)
    ultimately show ?thesis using False by simp
  next
    case (Inr p)
    then show ?thesis using break_lines_compiled[OF False] by blast
  qed
qed

lemma break_lines_total:
  assumes "55 \<le> max_len" "max_len < MAXREPEAT + 40"
  shows "\<exists>subs. break_lines line max_len = Inr subs"
  using break_lines_outcome[of line max_len] assms by auto

section \<open>Properties of the description formatter\<close>

lemma break_lines_nonempty: "break_lines line max_len = Inr subs \<Longrightarrow> subs \<noteq> []"
  by (auto simp: break_lines_def bind_err_def Let_def split: if_splits sum.splits)

lemma description_lines_loop_total:
  assumes "55 \<le> max_len" "max_len < MAXREPEAT + 40"
  shows "\<exists>lines. description_lines_loop raw_lines max_len acc = Inr lines
           \<and> (raw_lines \<noteq> [] \<or> acc \<noteq> [] \<longrightarrow> lines \<noteq> [])"
proof (induction raw_lines arbitrary: acc)
  case Nil
  then show ?case by simp
next
  case (Cons line raw_lines)
  show ?case
  proof (cases "line = []")
    case True
    then show ?thesis using Cons[of "acc @ [line]"] by auto
  next
    case False
    obtain subs where subs: "break_lines line max_len = Inr subs"
      using break_lines_total[OF assms] by blast
    then have "subs \<noteq> []" by (rule break_lines_nonempty)
    then show ?thesis using Cons[of "acc @ subs"] subs False by (auto simp: bind_err_def)
  qed
qed

lemma description_lines_total:
  assumes "55 \<le> max_len" "max_len < MAXREPEAT + 40"
  shows "\<exists>l ls. description_lines dtext max_len = Inr (l # ls)"
proof -
  have ne: "split_acc cur s \<noteq> []" for cur s
    by (induction s arbitrary: cur) auto
  obtain s where raw: "description_lines dtext max_len = description_lines_loop (split_nl s) max_len []"
    by (cases dtext) (auto simp: description_lines_def)
  obtain lines where "description_lines_loop (split_nl s) max_len [] = Inr lines" "lines \<noteq> []"
    using description_lines_loop_total[OF assms, of "split_nl s" "[]"] ne[of "[]" s]
    by (auto simp: split_nl_def)
  then show ?thesis using raw by (cases lines) auto
qed

lemma print_description_total:
  assumes "length indentation \<le> 65"
  shows "\<exists>out. print_description d indentation first_in_block = Inr out"
proof (cases d)
  case None
  then show ?thesis by (simp add: print_description_def)
next
  case (Some dtext)
  obtain l ls where
    "description_lines dtext (MAX_DESC_LEN - int (length indentation)) = Inr (l # ls)"
    using description_lines_total[of "MAX_DESC_LEN - int (length indentation)" dtext] assms
    by (auto simp: MAX_DESC_LEN_def MAXREPEAT_def)
  then show ?thesis using Some
    by (simp add: print_description_def bind_err_def Let_def)
qed

lemma escape_quote_head:
  "escape_quote (triple_quote @ b) = chr_bs # triple_quote @ escape_quote b"
  by (simp add: triple_quote_def)

lemma escape_quote_absent:
  "\<not> (\<exists>a b. s = a @ triple_quote @ b) \<Longrightarrow> escape_quote s = s"
proof (induction s rule: escape_quote.induct)
  case (1 a b c cs)
  have ne: "[a, b, c] \<noteq> triple_quote"
  proof
    assume "[a, b, c] = triple_quote"
    then have "a # b # c # cs = [] @ triple_quote @ cs" by simp
    with "1.prems" show False by blast
  qed
  have "\<not> (\<exists>a' b'. b # c # cs = a' @ triple_quote @ b')"
  proof
    assume "\<exists>a' b'. b # c # cs = a' @ triple_quote @ b'"
    then obtain a' b' where "b # c # cs = a' @ triple_quote @ b'" by blast
    then have "a # b # c # cs = (a # a') @ triple_quote @ b'" by simp
    with "1.prems" show False by blast
  qed
  with 1 ne show ?case by simp
qed simp_all

lemma escape_quote_leftmost:
  "\<not> (\<exists>a' b'. a @ [chr_dq, chr_dq] = a' @ triple_quote @ b') \<Longrightarrow>
     escape_quote (a @ triple_quote @ b) = a @ chr_bs # triple_quote @ escape_quote b"
proof (induction a)
  case Nil
  show ?case by (simp add: escape_quote_head)
next
  case (Cons x a)
  have rest: "\<not> (\<exists>a' b'. a @ [chr_dq, chr_dq] = a' @ triple_quote @ b')"
  proof
    assume "\<exists>a' b'. a @ [chr_dq, chr_dq] = a' @ triple_quote @ b'"
    then obtain a' b' where "a @ [chr_dq, chr_dq] = a' @ triple_quote @ b'" by blast
    then have "(x # a) @ [chr_dq, chr_dq] = (x # a') @ triple_quote @ b'" by simp
    with Cons.prems show False by blast
  qed
  obtain y z r where yzr: "a @ triple_quote @ b = y # z # r"
    by (cases a; cases "tl a") (auto simp: triple_quote_def)
  have ne: "[x, y, z] \<noteq> triple_quote"
  proof
    assume eq: "[x, y, z] = triple_quote"
    have "\<exists>b'. (x # a) @ [chr_dq, chr_dq] = [] @ triple_quote @ b'"
    proof (cases a)
      case Nil
      with eq show ?thesis by (simp add: triple_quote_def)
    next
      case (Cons a1 a')
      show ?thesis
      proof (cases a')
        case Nil
        with Cons eq yzr show ?thesis by (simp add: triple_quote_def)
      next
        case (Cons a2 a'')
        with \<open>a = a1 # a'\<close> eq yzr show ?thesis by (simp add: triple_quote_def)
      qed
    qed
    with Cons.prems show False by blast
  qed
  have "escape_quote ((x # a) @ triple_quote @ b) = x # escape_quote (a @ triple_quote @ b)"
    using yzr ne by simp
  with Cons.IH[OF rest] show ?case by simp
qed

lemma print_description_embeds:
  assumes "desc_truthy d" and "print_description d indentation first_in_block = Inr out"
  shows "\<exists>dtext lines opener closer.
           d = Some dtext
           \<and> description_lines dtext (MAX_DESC_LEN - int (length indentation)) = Inr lines
           \<and> out = opener @ concat (map escape_quote lines) @ closer
           \<and> (\<exists>lead brk. opener = lead @ indentation @ triple_quote @ brk
                 \<and> lead \<in> {[], [chr_nl]} \<and> brk \<in> {[], [chr_nl]})
           \<and> closer \<in> {triple_quote @ [chr_nl], indentation @ triple_quote @ [chr_nl]}"
proof -
  from assms(1) obtain dtext where d: "d = Some dtext"
    by (cases d) (auto simp: desc_truthy_def)
  from assms d obtain lines where
    lines: "description_lines dtext (MAX_DESC_LEN - int (length indentation)) = Inr lines"
    by (cases "description_lines dtext (MAX_DESC_LEN - int (length indentation))")
       (auto simp: print_description_def bind_err_def)
  from assms d lines obtain l0 ls where l: "lines = l0 # ls"
    by (cases lines) (auto simp: print_description_def bind_err_def)
  define lead where "lead = (if indentation \<noteq> [] \<and> \<not> first_in_block then [chr_nl] else [])"
  define short where
    "short \<longleftrightarrow> length lines = 1 \<and> length l0 < 70 \<and> length l0 > 0 \<and> last l0 \<noteq> chr_dq"
  define brk where
    "brk = (if \<not> short \<and> \<not> (l0 = [] \<or> hd l0 \<in> {chr_sp, chr_tab}) then [chr_nl] else [])"
  define opener where "opener = lead @ indentation @ triple_quote @ brk"
  define closer where
    "closer = (if short then triple_quote @ [chr_nl] else indentation @ triple_quote @ [chr_nl])"
  have out: "out = opener @ concat (map escape_quote lines) @ closer"
    using assms d lines l
    by (cases short)
       (auto simp: print_description_def bind_err_def Let_def lead_def brk_def short_def
                   opener_def closer_def)
  have op: "\<exists>lead brk. opener = lead @ indentation @ triple_quote @ brk
                 \<and> lead \<in> {[], [chr_nl]} \<and> brk \<in> {[], [chr_nl]}"
    by (rule exI[of _ lead], rule exI[of _ brk]) (simp add: opener_def lead_def brk_def)
  have cl: "closer \<in> {triple_quote @ [chr_nl], indentation @ triple_quote @ [chr_nl]}"
    by (simp add: closer_def)
  show ?thesis
    by (rule exI[of _ dtext], rule exI[of _ lines], rule exI[of _ opener],
        rule exI[of _ closer]) (use d lines out op cl in blast)
qed

section \<open>The sublines and the break points\<close>

lemma sublines_rest_nth:
  "even (length xs) \<Longrightarrow>
     \<exists>subs. sublines_rest xs = Inr subs \<and> length subs = length xs div 2
       \<and> (\<forall>k<length subs. subs ! k = tl (xs ! (2 * k)) @ xs ! (2 * k + 1))"
proof (induction xs rule: sublines_rest.induct)
  case 1
  then show ?case by simp
next
  case (2 m)
  then show ?case by simp
next
  case (3 m g rest)
  then obtain subs where s: "sublines_rest rest = Inr subs" "length subs = length rest div 2"
    "\<forall>k<length subs. subs ! k = tl (rest ! (2 * k)) @ rest ! (2 * k + 1)"
    by auto
  have "\<forall>k<length ((tl m @ g) # subs).
          ((tl m @ g) # subs) ! k = tl ((m # g # rest) ! (2 * k)) @ (m # g # rest) ! (2 * k + 1)"
  proof (intro allI impI)
    fix k assume "k < length ((tl m @ g) # subs)"
    then show "((tl m @ g) # subs) ! k
                 = tl ((m # g # rest) ! (2 * k)) @ (m # g # rest) ! (2 * k + 1)"
      using s(3) by (cases k) auto
  qed
  then show ?case using s(1,2) by (simp add: bind_err_def)
qed

lemma re_split_match_space:
  "2 * j + 1 < length (re_split p b r) \<Longrightarrow> 1 \<le> j \<or> \<not> b \<Longrightarrow>
     \<exists>x. re_split p b r ! (2 * j + 1) = chr_sp # x"
proof (induction "length r" arbitrary: r b j rule: less_induct)
  case less
  show ?case
  proof (cases "search p b r")
    case None
    with less.prems show ?thesis by (simp add: re_split_None)
  next
    case (Some y)
    obtain s m t where y: "y = (s, m, t)" by (cases y)
    from Some y have d: "r = s @ m @ t" "m \<noteq> []"
      using search_decomp[of p b r s m t] by simp_all
    have parts: "re_split p b r = s # m # re_split p False t"
      using Some y by (simp add: re_split_Some)
    show ?thesis
    proof (cases j)
      case 0
      with less.prems(2) have "\<not> b" by simp
      with Some y show ?thesis using search_space[of p r s m t] parts 0 by auto
    next
      case (Suc j')
      have "length t < length r" using d by simp
      moreover have "2 * j' + 1 < length (re_split p False t)"
        using less.prems(1) parts Suc by simp
      ultimately have "\<exists>x. re_split p False t ! (2 * j' + 1) = chr_sp # x"
        using less.hyps[of t j' False] by simp
      then show ?thesis using parts Suc by simp
    qed
  qed
qed

lemma break_lines_structure:
  assumes long: "\<not> int (length line) < max_len + 5"
    and p: "compile_split_re max_len = Inr p"
    and parts: "parts = re_split p True line"
  shows "(length parts < 4 \<longrightarrow> break_lines line max_len = Inr [line])
       \<and> (4 \<le> length parts \<longrightarrow>
           (\<exists>subs. break_lines line max_len = Inr subs
              \<and> length subs = (length parts - 1) div 2
              \<and> subs ! 0 = parts ! 0 @ parts ! 1 @ parts ! 2
              \<and> (\<forall>k. 1 \<le> k \<and> k < length subs \<longrightarrow>
                    (\<exists>x. parts ! (2 * k + 1) = chr_sp # x)
                    \<and> subs ! k = tl (parts ! (2 * k + 1)) @ parts ! (2 * k + 2))))"
proof (intro conjI impI)
  assume "length parts < 4"
  then show "break_lines line max_len = Inr [line]"
    using long p parts by (simp add: break_lines_def bind_err_def)
next
  assume four: "4 \<le> length parts"
  have odd: "odd (length parts)" using parts by (simp add: re_split_odd)
  then have "even (length (drop 3 parts))" using four by simp
  then obtain rest where r: "sublines_rest (drop 3 parts) = Inr rest"
    "length rest = length (drop 3 parts) div 2"
    "\<forall>k<length rest. rest ! k = tl (drop 3 parts ! (2 * k)) @ drop 3 parts ! (2 * k + 1)"
    using sublines_rest_nth[of "drop 3 parts"] by blast
  let ?subs = "(parts ! 0 @ parts ! 1 @ parts ! 2) # rest"
  have b: "break_lines line max_len = Inr ?subs"
    using long p parts four r(1) by (simp add: break_lines_def bind_err_def Let_def)
  have len: "length ?subs = (length parts - 1) div 2"
    using r(2) four odd by (auto elim!: oddE)
  have nth: "(\<exists>x. parts ! (2 * k + 1) = chr_sp # x)
             \<and> ?subs ! k = tl (parts ! (2 * k + 1)) @ parts ! (2 * k + 2)"
    if k: "1 \<le> k \<and> k < length ?subs" for k
  proof -
    obtain k' where k': "k = Suc k'" using k by (cases k) auto
    with k have lt: "k' < length rest" by simp
    then have in_range: "2 * k' + 1 < length (drop 3 parts)" using r(2) by simp
    then have "2 * k + 2 < length parts" using k' by simp
    then have sp: "\<exists>x. parts ! (2 * k + 1) = chr_sp # x"
      using re_split_match_space[of k p True line] k parts by simp
    have "rest ! k' = tl (drop 3 parts ! (2 * k')) @ drop 3 parts ! (2 * k' + 1)"
      using r(3) lt by blast
    moreover have "drop 3 parts ! (2 * k') = parts ! (2 * k + 1)"
    proof -
      have "3 + 2 * k' = 2 * k + 1" using k' by simp
      moreover have "drop 3 parts ! (2 * k') = parts ! (3 + 2 * k')"
        using in_range by simp
      ultimately show ?thesis by (simp only:)
    qed
    moreover have "drop 3 parts ! (2 * k' + 1) = parts ! (2 * k + 2)"
    proof -
      have "3 + (2 * k' + 1) = 2 * k + 2" using k' by simp
      moreover have "drop 3 parts ! (2 * k' + 1) = parts ! (3 + (2 * k' + 1))"
        using in_range by simp
      ultimately show ?thesis by (simp only:)
    qed
    ultimately show ?thesis using sp k' by simp
  qed
  show "\<exists>subs. break_lines line max_len = Inr subs
              \<and> length subs = (length parts - 1) div 2
              \<and> subs ! 0 = parts ! 0 @ parts ! 1 @ parts ! 2
              \<and> (\<forall>k. 1 \<le> k \<and> k < length subs \<longrightarrow>
                    (\<exists>x. parts ! (2 * k + 1) = chr_sp # x)
                    \<and> subs ! k = tl (parts ! (2 * k + 1)) @ parts ! (2 * k + 2))"
    by (rule exI[of _ ?subs]) (use b len nth in simp)
qed

text \<open>Every match of the compiled pattern is a break point as the specification describes
  it, and where such a break point exists the search finds a match.\<close>

lemma take_takeWhile:
  "k \<le> length (takeWhile P xs) \<Longrightarrow> take k xs = take k (takeWhile P xs)"
  by (induction xs arbitrary: k) (auto simp: take_Cons' split: if_splits)

lemma take_within_takeWhile:
  "k \<le> length (takeWhile P xs) \<Longrightarrow> x \<in> set (take k xs) \<Longrightarrow> P x"
  using take_takeWhile[of k P xs] by (auto dest!: in_set_takeD set_takeWhileD)

lemma lookahead_rest:
  "lookahead rest \<longleftrightarrow>
     (rest = [] \<or> rest = [chr_nl] \<or> (case rest of [] \<Rightarrow> False | c # r \<Rightarrow> c = chr_sp))"
  by (auto simp: lookahead_def at_dollar_def split: list.splits)

lemma body_span:
  assumes "body (Repeat N) r = Some n" "int N = max_len - 40"
  shows "span_ok max_len (take n r) \<and> lookahead (drop n r) \<and> n \<le> length r"
proof -
  from assms(1) have b: "15 \<le> n" "n \<le> N" "n \<le> length (takeWhile (\<lambda>c. c \<noteq> chr_nl) r)"
    "lookahead (drop n r)"
    using repeat_dot_bounds[of 15 N r n] by simp_all
  have le: "n \<le> length r"
    using b(3) length_takeWhile_le[of "\<lambda>c. c \<noteq> chr_nl" r] by simp
  have "chr_nl \<notin> set (take n r)"
    using take_within_takeWhile[OF b(3), of chr_nl] by blast
  then show ?thesis using b le assms(2) by (simp add: span_ok_def)
qed

lemma match_here_span:
  assumes "match_here (Repeat N) b r = Some n" "int N = max_len - 40"
  shows "break_span max_len b (take n r) (drop n r)"
proof (cases "case r of [] \<Rightarrow> None
                    | c # r' \<Rightarrow> if c = chr_sp then map_option Suc (body (Repeat N) r') else None")
  case None
  with assms(1) have "b" "body (Repeat N) r = Some n"
    by (auto simp: match_here_def split: if_splits)
  then show ?thesis
    using body_span[OF _ assms(2), of r n] by (simp add: break_span_def lookahead_rest)
next
  case (Some n')
  with assms(1) have n': "n' = n" by (simp add: match_here_def)
  from Some obtain r' k where r: "r = chr_sp # r'" "body (Repeat N) r' = Some k" "n' = Suc k"
    by (auto split: list.splits if_splits)
  then show ?thesis
    using body_span[OF r(2) assms(2)] n' by (simp add: break_span_def lookahead_rest)
qed

lemma search_span:
  assumes "int N = max_len - 40"
  shows "search (Repeat N) b r = Some (s, m, t) \<Longrightarrow> break_span max_len (b \<and> s = []) m t"
proof (induction r arbitrary: b s)
  case Nil
  then show ?case by (auto split: option.splits dest: match_here_pos)
next
  case (Cons c r)
  show ?case
  proof (cases "match_here (Repeat N) b (c # r)")
    case None
    with Cons.prems obtain s' where "search (Repeat N) False r = Some (s', m, t)" "s = c # s'"
      by auto
    with Cons.IH[of False s'] show ?thesis by simp
  next
    case (Some n)
    with Cons.prems have "s = []" "m = take n (c # r)" "t = drop n (c # r)" by auto
    then show ?thesis using match_here_span[OF Some assms] by simp
  qed
qed

lemma re_split_spans:
  assumes N: "int N = max_len - 40"
  shows "2 * j + 1 < length (re_split (Repeat N) b r) \<Longrightarrow>
     break_span max_len (b \<and> concat (take (2 * j + 1) (re_split (Repeat N) b r)) = [])
       (re_split (Repeat N) b r ! (2 * j + 1))
       (concat (drop (2 * j + 2) (re_split (Repeat N) b r)))"
proof (induction "length r" arbitrary: r b j rule: less_induct)
  case less
  show ?case
  proof (cases "search (Repeat N) b r")
    case None
    with less.prems show ?thesis by (simp add: re_split_None)
  next
    case (Some y)
    obtain s m t where y: "y = (s, m, t)" by (cases y)
    from Some y have d: "r = s @ m @ t" "m \<noteq> []"
      using search_decomp[of "Repeat N" b r s m t] by simp_all
    have parts: "re_split (Repeat N) b r = s # m # re_split (Repeat N) False t"
      using Some y by (simp add: re_split_Some)
    show ?thesis
    proof (cases j)
      case 0
      have "break_span max_len (b \<and> s = []) m t"
        using search_span[OF N, of b r s m t] Some y by simp
      then show ?thesis using parts 0 by (simp add: re_split_concat)
    next
      case (Suc j')
      have "length t < length r" using d by simp
      moreover have "2 * j' + 1 < length (re_split (Repeat N) False t)"
        using less.prems parts Suc by simp
      ultimately have "break_span max_len False
           (re_split (Repeat N) False t ! (2 * j' + 1))
           (concat (drop (2 * j' + 2) (re_split (Repeat N) False t)))"
        using less.hyps[of t j' False] by simp
      then show ?thesis using parts Suc d(2) by simp
    qed
  qed
qed

lemma backtrack_complete:
  "lo \<le> j \<Longrightarrow> j \<le> k \<Longrightarrow> lookahead (drop j r) \<Longrightarrow> \<exists>n. backtrack r lo k = Some n"
proof (induction k)
  case 0
  then show ?case by simp
next
  case (Suc k)
  then show ?case by (cases "j = Suc k") auto
qed

lemma body_complete:
  assumes "span_ok max_len span" "lookahead rest" "int N = max_len - 40"
  shows "\<exists>n. body (Repeat N) (span @ rest) = Some n"
proof -
  have nl: "chr_nl \<notin> set span" and lo: "15 \<le> length span" and hi: "length span \<le> N"
    using assms(1,3) by (simp_all add: span_ok_def)
  have "takeWhile (\<lambda>c. c \<noteq> chr_nl) (span @ rest) = span @ takeWhile (\<lambda>c. c \<noteq> chr_nl) rest"
    using nl by (intro takeWhile_append2) auto
  then have "length span \<le> length (takeWhile (\<lambda>c. c \<noteq> chr_nl) (span @ rest))" by simp
  then have m: "length span \<le> min N (length (takeWhile (\<lambda>c. c \<noteq> chr_nl) (span @ rest)))"
    using hi by simp
  then have "\<exists>n. backtrack (span @ rest) 15
                 (min N (length (takeWhile (\<lambda>c. c \<noteq> chr_nl) (span @ rest)))) = Some n"
    using backtrack_complete[OF lo m, of "span @ rest"] assms(2) by simp
  moreover have "\<not> min N (length (takeWhile (\<lambda>c. c \<noteq> chr_nl) (span @ rest))) < 15"
    using m lo by linarith
  ultimately show ?thesis by (simp add: repeat_dot_def Let_def)
qed

lemma match_here_complete:
  assumes "break_span max_len b m rest" "int N = max_len - 40"
  shows "\<exists>n. match_here (Repeat N) b (m @ rest) = Some n"
proof -
  have la: "lookahead rest" using assms(1) by (simp add: break_span_def lookahead_rest)
  consider span where "m = chr_sp # span" "span_ok max_len span" | "b" "span_ok max_len m"
    using assms(1) by (auto simp: break_span_def split: list.splits)
  then show ?thesis
  proof cases
    case 1
    then show ?thesis using body_complete[OF 1(2) la assms(2)]
      by (auto simp: match_here_def)
  next
    case 2
    then show ?thesis using body_complete[OF 2(2) la assms(2)]
      by (auto simp: match_here_def split: option.splits)
  qed
qed

lemma search_complete:
  assumes "int N = max_len - 40"
  shows "break_span max_len (b \<and> pre = []) m rest \<Longrightarrow>
           \<exists>y. search (Repeat N) b (pre @ m @ rest) = Some y"
proof (induction pre arbitrary: b)
  case Nil
  then obtain n where n: "match_here (Repeat N) b (m @ rest) = Some n"
    using match_here_complete[OF _ assms, of b m rest] by auto
  then show ?case by (cases "m @ rest") auto
next
  case (Cons c pre)
  then have "break_span max_len (False \<and> pre = []) m rest" by simp
  then obtain y where "search (Repeat N) False (pre @ m @ rest) = Some y"
    using Cons.IH[of False] by blast
  then show ?case
    by (cases "match_here (Repeat N) b (c # pre @ m @ rest)"; cases y) auto
qed

section \<open>The formatters: when they return and what they return\<close>

text \<open>With the indentations the printer uses, the empty one and two spaces, the width budget
  of a description is 120 or 118, the pattern compiles, and the description formatter
  returns. A formatter then raises only when the read of an attribute does.\<close>

lemma sequence_err_total:
  "\<forall>m \<in> set ms. \<exists>x. m = Inr x \<Longrightarrow> \<exists>xs. sequence_err ms = Inr xs \<and> map Inr xs = ms"
proof (induction ms)
  case Nil
  then show ?case by simp
next
  case (Cons m ms)
  then obtain x xs where "m = Inr x" "sequence_err ms = Inr xs" "map Inr xs = ms"
    by auto
  then show ?case by (simp add: bind_err_def)
qed

lemma sequence_err_map_total:
  assumes "\<And>x. x \<in> set xs \<Longrightarrow> \<exists>y. f x = Inr y"
  shows "\<exists>ys. sequence_err (map f xs) = Inr ys \<and> map Inr ys = map f xs"
  using sequence_err_total[of "map f xs"] assms by auto

lemma input_value_line_total: "\<exists>out. input_value_line env x = Inr out"
proof -
  obtain idx arg_name arg where x: "x = (idx, arg_name, arg)" by (cases x)
  obtain d where "print_description (arg_description arg) ''  '' (idx = 0) = Inr d"
    using print_description_total[of "''  ''"] by auto
  then show ?thesis using x by (simp add: input_value_line_def bind_err_def)
qed

lemma print_args_total: "\<exists>out. print_args env args = Inr out"
proof -
  obtain lines where "sequence_err (map (input_value_line env) (enumerate 0 args)) = Inr lines"
    using sequence_err_map_total[of "enumerate 0 args" "input_value_line env"]
      input_value_line_total by blast
  then show ?thesis by (simp add: print_args_def bind_err_def)
qed

lemma field_line_total: "\<exists>out. field_line env x = Inr out"
proof -
  obtain idx f_name f where x: "x = (idx, f_name, f)" by (cases x)
  obtain d where "print_description (field_description f) ''  '' (idx = 0) = Inr d"
    using print_description_total[of "''  ''"] by auto
  moreover obtain a where "print_args env (field_args f) = Inr a"
    using print_args_total by blast
  ultimately show ?thesis using x by (simp add: field_line_def bind_err_def)
qed

lemma enum_value_line_total: "\<exists>out. enum_value_line env x = Inr out"
proof -
  obtain idx v where x: "x = (idx, v)" by (cases x)
  obtain d where "print_description (value_description v) ''  '' (idx = 0) = Inr d"
    using print_description_total[of "''  ''"] by auto
  then show ?thesis using x by (simp add: enum_value_line_def bind_err_def)
qed

lemma top_description_total: "\<exists>d. print_description desc [] True = Inr d"
  using print_description_total[of "[]"] by simp


lemma print_fields_read:
  "read_nonempty fields_attribute = Inr type_fields \<Longrightarrow>
     \<exists>lines. print_fields env fields_attribute = Inr (str_join [chr_nl] lines)
       \<and> map Inr lines = map (field_line env) (enumerate 0 type_fields)"
proof -
  assume r: "read_nonempty fields_attribute = Inr type_fields"
  obtain lines where "sequence_err (map (field_line env) (enumerate 0 type_fields)) = Inr lines"
    "map Inr lines = map (field_line env) (enumerate 0 type_fields)"
    using sequence_err_map_total[of "enumerate 0 type_fields" "field_line env"]
      field_line_total by blast
  then show ?thesis using r by (auto simp: print_fields_def bind_err_def)
qed


lemma input_lines_read:
  "\<exists>lines. sequence_err (map (input_value_line env) (enumerate 0 type_fields)) = Inr lines
     \<and> map Inr lines = map (input_value_line env) (enumerate 0 type_fields)"
  using sequence_err_map_total[of "enumerate 0 type_fields" "input_value_line env"]
    input_value_line_total by blast

lemma enum_lines_read:
  "\<exists>lines. sequence_err (map (enum_value_line env) (enumerate 0 vals)) = Inr lines
     \<and> map Inr lines = map (enum_value_line env) (enumerate 0 vals)"
  using sequence_err_map_total[of "enumerate 0 vals" "enum_value_line env"]
    enum_value_line_total by blast

text \<open>The shape of each block.\<close>

lemma print_scalar_shape:
  "\<exists>d. print_description desc [] True = Inr d
     \<and> print_scalar name desc = Inr (d @ ''scalar '' @ name)"
  using top_description_total[of desc] by (auto simp: print_scalar_def bind_err_def)

lemma print_object_shape:
  assumes "read_attribute interfaces_attribute = Inr interfaces"
    and "read_nonempty fields_attribute = Inr type_fields"
  shows "\<exists>d lines. print_description desc [] True = Inr d
     \<and> map Inr lines = map (field_line env) (enumerate 0 type_fields)
     \<and> print_object env name desc interfaces_attribute fields_attribute
         = Inr (d @ ''type '' @ name
                @ (if interfaces = [] then [] else '' implements '' @ str_join '', '' interfaces)
                @ '' {'' @ [chr_nl] @ str_join [chr_nl] lines @ [chr_nl] @ ''}'')"
proof -
  obtain d where d: "print_description desc [] True = Inr d"
    using top_description_total[of desc] by blast
  obtain lines where l: "print_fields env fields_attribute = Inr (str_join [chr_nl] lines)"
    "map Inr lines = map (field_line env) (enumerate 0 type_fields)"
    using print_fields_read[OF assms(2)] by blast
  have "print_object env name desc interfaces_attribute fields_attribute
         = Inr (d @ ''type '' @ name
                @ (if interfaces = [] then [] else '' implements '' @ str_join '', '' interfaces)
                @ '' {'' @ [chr_nl] @ str_join [chr_nl] lines @ [chr_nl] @ ''}'')"
    using assms(1) d l(1) by (simp add: print_object_def bind_err_def Let_def)
  then show ?thesis using d l(2) by blast
qed

lemma print_interface_shape:
  assumes "read_nonempty fields_attribute = Inr type_fields"
  shows "\<exists>d lines. print_description desc [] True = Inr d
     \<and> map Inr lines = map (field_line env) (enumerate 0 type_fields)
     \<and> print_interface env name desc fields_attribute
         = Inr (d @ ''interface '' @ name @ '' {'' @ [chr_nl] @ str_join [chr_nl] lines
                @ [chr_nl] @ ''}'')"
proof -
  obtain d where d: "print_description desc [] True = Inr d"
    using top_description_total[of desc] by blast
  obtain lines where l: "print_fields env fields_attribute = Inr (str_join [chr_nl] lines)"
    "map Inr lines = map (field_line env) (enumerate 0 type_fields)"
    using print_fields_read[OF assms] by blast
  have "print_interface env name desc fields_attribute
         = Inr (d @ ''interface '' @ name @ '' {'' @ [chr_nl] @ str_join [chr_nl] lines
                @ [chr_nl] @ ''}'')"
    using d l(1) by (simp add: print_interface_def bind_err_def)
  then show ?thesis using d l(2) by blast
qed

lemma print_union_shape:
  assumes "read_nonempty types_attribute = Inr types"
  shows "\<exists>d. print_description desc [] True = Inr d
     \<and> print_union name desc types_attribute
         = Inr (d @ ''union '' @ name @ '' = '' @ str_join '' | '' types)"
  using top_description_total[of desc] assms by (auto simp: print_union_def bind_err_def)

lemma print_enum_shape:
  "\<exists>d lines. print_description desc [] True = Inr d
     \<and> map Inr lines = map (enum_value_line env) (enumerate 0 vals)
     \<and> print_enum env name desc vals
         = Inr (d @ ''enum '' @ name @ '' {'' @ [chr_nl] @ str_join [chr_nl] lines
                @ [chr_nl] @ ''}'')"
proof -
  obtain d where d: "print_description desc [] True = Inr d"
    using top_description_total[of desc] by blast
  obtain lines where l: "sequence_err (map (enum_value_line env) (enumerate 0 vals)) = Inr lines"
    "map Inr lines = map (enum_value_line env) (enumerate 0 vals)"
    using enum_lines_read by blast
  have "print_enum env name desc vals
         = Inr (d @ ''enum '' @ name @ '' {'' @ [chr_nl] @ str_join [chr_nl] lines
                @ [chr_nl] @ ''}'')"
    using d l(1) by (simp add: print_enum_def bind_err_def Let_def)
  then show ?thesis using d l(2) by blast
qed

lemma print_input_object_shape:
  assumes "read_nonempty fields_attribute = Inr type_fields"
  shows "\<exists>d lines. print_description desc [] True = Inr d
     \<and> map Inr lines = map (input_value_line env) (enumerate 0 type_fields)
     \<and> print_input_object env name desc fields_attribute
         = Inr (d @ ''input '' @ name @ '' {'' @ [chr_nl] @ str_join [chr_nl] lines
                @ [chr_nl] @ ''}'')"
proof -
  obtain d where d: "print_description desc [] True = Inr d"
    using top_description_total[of desc] by blast
  obtain lines where l:
    "sequence_err (map (input_value_line env) (enumerate 0 type_fields)) = Inr lines"
    "map Inr lines = map (input_value_line env) (enumerate 0 type_fields)"
    using input_lines_read by blast
  have "print_input_object env name desc fields_attribute
         = Inr (d @ ''input '' @ name @ '' {'' @ [chr_nl] @ str_join [chr_nl] lines
                @ [chr_nl] @ ''}'')"
    using assms d l(1) by (simp add: print_input_object_def bind_err_def Let_def)
  then show ?thesis using d l(2) by blast
qed

lemma print_directive_shape:
  "\<exists>d a. print_description (dir_description directive) [] True = Inr d
     \<and> print_args env (dir_args directive) = Inr a
     \<and> print_directive env directive
         = Inr (d @ ''directive @'' @ dir_name directive @ a @ '' on ''
                @ str_join '' | '' (dir_locations directive))"
  using top_description_total[of "dir_description directive"]
    print_args_total[of env "dir_args directive"]
  by (auto simp: print_directive_def bind_err_def)

lemma field_line_shape:
  "\<exists>d a. print_description (field_description f) ''  '' (idx = 0) = Inr d
     \<and> print_args env (field_args f) = Inr a
     \<and> field_line env (idx, f_name, f)
         = Inr (d @ ''  '' @ f_name @ a @ '': '' @ field_type f
                @ print_deprecated env (field_deprecation_reason f))"
proof -
  obtain d where "print_description (field_description f) ''  '' (idx = 0) = Inr d"
    using print_description_total[of "''  ''"] by auto
  moreover obtain a where "print_args env (field_args f) = Inr a"
    using print_args_total by blast
  ultimately show ?thesis by (simp add: field_line_def bind_err_def)
qed

lemma input_value_line_shape:
  "\<exists>d. print_description (arg_description arg) ''  '' (idx = 0) = Inr d
     \<and> input_value_line env (idx, arg_name, arg)
         = Inr (d @ ''  '' @ print_input_value env arg_name arg)"
proof -
  obtain d where "print_description (arg_description arg) ''  '' (idx = 0) = Inr d"
    using print_description_total[of "''  ''"] by auto
  then show ?thesis by (simp add: input_value_line_def bind_err_def)
qed

lemma enum_value_line_shape:
  "\<exists>d. print_description (value_description v) ''  '' (idx = 0) = Inr d
     \<and> enum_value_line env (idx, v)
         = Inr (d @ ''  '' @ value_name v @ print_deprecated env (value_deprecation_reason v))"
proof -
  obtain d where "print_description (value_description v) ''  '' (idx = 0) = Inr d"
    using print_description_total[of "''  ''"] by auto
  then show ?thesis by (simp add: enum_value_line_def bind_err_def)
qed

lemma print_input_value_shape:
  "print_input_value env name arg
     = name @ '': '' @ arg_type arg
       @ (case arg_default_value arg of
            None \<Rightarrow> []
          | Some v \<Rightarrow> '' = '' @ literal_text env v (Some (arg_type arg)))"
  by (simp add: print_input_value_def split: option.splits)

lemma print_args_forms:
  "print_args env [] = Inr []
   \<and> (args \<noteq> [] \<and> \<not> (\<exists>(arg_name, arg) \<in> set args. desc_truthy (arg_description arg)) \<longrightarrow>
        print_args env args
          = Inr (''('' @ str_join '', '' (map (\<lambda>(arg_name, arg). print_input_value env arg_name arg) args)
                 @ '')''))
   \<and> (args \<noteq> [] \<and> (\<exists>(arg_name, arg) \<in> set args. desc_truthy (arg_description arg)) \<longrightarrow>
        (\<exists>lines. print_args env args
                    = Inr (''('' @ [chr_nl] @ str_join [chr_nl] lines @ [chr_nl] @ '')'')
           \<and> map Inr lines = map (input_value_line env) (enumerate 0 args)))"
proof -
  obtain lines where l: "sequence_err (map (input_value_line env) (enumerate 0 args)) = Inr lines"
    "map Inr lines = map (input_value_line env) (enumerate 0 args)"
    using input_lines_read by blast
  have "list_all (\<lambda>(arg_name, arg). \<not> desc_truthy (arg_description arg)) args
          \<longleftrightarrow> \<not> (\<exists>(arg_name, arg) \<in> set args. desc_truthy (arg_description arg))"
    by (auto simp: list_all_iff)
  then show ?thesis using l
    by (auto simp: print_args_def bind_err_def)
qed

text \<open>When the dispatcher returns.\<close>

lemma print_type_printable:
  assumes "printable t"
  shows "\<exists>out. print_type env t = Inr out"
proof (cases t)
  case (GraphQLScalarType name desc)
  then show ?thesis using print_scalar_shape[of desc name] by auto
next
  case (GraphQLObjectType name desc ia fa)
  with assms obtain ifs fs where "read_attribute ia = Inr ifs" "read_nonempty fa = Inr fs"
    by (cases "read_attribute ia"; cases "read_nonempty fa") auto
  then show ?thesis using GraphQLObjectType print_object_shape[of ia ifs fa fs desc env name]
    by auto
next
  case (GraphQLInterfaceType name desc fa)
  with assms obtain fs where "read_nonempty fa = Inr fs"
    by (cases "read_nonempty fa") auto
  then show ?thesis using GraphQLInterfaceType print_interface_shape[of fa fs desc env name]
    by auto
next
  case (GraphQLUnionType name desc ta)
  with assms obtain ts where "read_nonempty ta = Inr ts"
    by (cases "read_nonempty ta") auto
  then show ?thesis using GraphQLUnionType print_union_shape[of ta ts desc name] by auto
next
  case (GraphQLEnumType name desc vals)
  then show ?thesis using print_enum_shape[of desc env vals name] by auto
next
  case (GraphQLInputObjectType name desc fa)
  with assms obtain fs where "read_nonempty fa = Inr fs"
    by (cases "read_nonempty fa") auto
  then show ?thesis
    using GraphQLInputObjectType print_input_object_shape[of fa fs desc env name] by auto
next
  case OtherType
  with assms show ?thesis by simp
qed







lemma print_directive_total: "\<exists>out. print_directive env directive = Inr out"
  using print_directive_shape[of directive env] by blast

section \<open>The blocks of the printed schema\<close>



lemma sequence_err_append:
  "sequence_err xs = Inr a \<Longrightarrow> sequence_err ys = Inr b \<Longrightarrow> sequence_err (xs @ ys) = Inr (a @ b)"
  by (induction xs arbitrary: a) (auto simp: bind_err_def split: sum.splits)

lemma print_filtered_schema_blocks:
  assumes "\<forall>(typename, t) \<in> set (type_map schema). type_filter typename \<longrightarrow> printable t"
  shows "\<exists>dblocks tblocks.
           print_filtered_schema env schema directive_filter type_filter
             = Inr (str_join [chr_nl, chr_nl] (print_schema_definition schema # dblocks @ tblocks)
                    @ [chr_nl])
           \<and> map Inr dblocks
               = map (print_directive env)
                   (filter (\<lambda>d. directive_filter (dir_name d)) (directives schema))
           \<and> map Inr tblocks
               = map (\<lambda>(typename, t). print_type env t)
                   (filter (\<lambda>(typename, t). type_filter typename)
                      (sort_key fst (type_map schema)))"
proof -
  define ds where "ds = filter (\<lambda>d. directive_filter (dir_name d)) (directives schema)"
  define ts where
    "ts = filter (\<lambda>(typename, t). type_filter typename) (sort_key fst (type_map schema))"
  obtain dblocks where d: "sequence_err (map (print_directive env) ds) = Inr dblocks"
      "map Inr dblocks = map (print_directive env) ds"
    using sequence_err_map_total[of ds "print_directive env"] print_directive_total by blast
  have "\<exists>y. (\<lambda>(typename, t). print_type env t) x = Inr y" if "x \<in> set ts" for x
  proof -
    obtain k t where x: "x = (k, t)" by (cases x)
    with that have "(k, t) \<in> set (type_map schema)" "type_filter k"
      by (auto simp: ts_def)
    with assms have "printable t" by auto
    then show ?thesis using x print_type_printable[of t env] by simp
  qed
  then obtain tblocks where t:
      "sequence_err (map (\<lambda>(typename, t). print_type env t) ts) = Inr tblocks"
      "map Inr tblocks = map (\<lambda>(typename, t). print_type env t) ts"
    using sequence_err_map_total[of ts "\<lambda>(typename, t). print_type env t"] by blast
  have "sequence_err ([Inr (print_schema_definition schema)]
          @ map (print_directive env) ds @ map (\<lambda>(typename, t). print_type env t) ts)
        = Inr ([print_schema_definition schema] @ dblocks @ tblocks)"
    by (intro sequence_err_append d(1) t(1)) (simp add: bind_err_def)
  then have "print_filtered_schema env schema directive_filter type_filter
             = Inr (str_join [chr_nl, chr_nl] (print_schema_definition schema # dblocks @ tblocks)
                    @ [chr_nl])"
    by (simp add: print_filtered_schema_def ds_def ts_def bind_err_def)
  then show ?thesis using d(2) t(2) unfolding ds_def ts_def by blast
qed


text \<open>Where a block begins and ends.\<close>

lemma str_join_last:
  "blocks \<noteq> [] \<Longrightarrow> last blocks \<noteq> [] \<Longrightarrow>
     str_join sep blocks \<noteq> [] \<and> last (str_join sep blocks) = last (last blocks)"
  by (induction sep blocks rule: str_join.induct) auto

lemma str_join_hd:
  "blocks \<noteq> [] \<Longrightarrow> hd blocks \<noteq> [] \<Longrightarrow>
     str_join sep blocks \<noteq> [] \<and> hd (str_join sep blocks) = hd (hd blocks)"
  by (induction sep blocks rule: str_join.induct) auto

lemma str_join_append:
  "xs \<noteq> [] \<Longrightarrow> ys \<noteq> [] \<Longrightarrow>
     str_join sep (xs @ ys) = str_join sep xs @ sep @ str_join sep ys"
proof (induction sep xs rule: str_join.induct)
  case (1 sep)
  then show ?case by simp
next
  case (2 sep x)
  then show ?case by (cases ys) auto
next
  case (3 sep x y ys')
  then show ?case by simp
qed

lemma top_description_head:
  "print_description desc [] True = Inr d \<Longrightarrow> d = [] \<or> hd d = chr_dq"
  by (auto simp: print_description_def bind_err_def Let_def triple_quote_def
           split: option.splits if_splits sum.splits list.splits)

lemma print_directive_head:
  assumes "print_directive env directive = Inr b"
  shows "b \<noteq> [] \<and> hd b \<noteq> chr_nl"
proof -
  obtain d a where d: "print_description (dir_description directive) [] True = Inr d"
    and b: "print_directive env directive
         = Inr (d @ ''directive @'' @ dir_name directive @ a @ '' on ''
                @ str_join '' | '' (dir_locations directive))"
    using print_directive_shape[of directive env] by blast
  from top_description_head[OF d] b assms show ?thesis
    by (cases d) (auto simp: chr_dq_def chr_nl_def)
qed

lemma print_type_head:
  assumes "print_type env t = Inr b"
  shows "b \<noteq> [] \<and> hd b \<noteq> chr_nl"
proof -
  have k: "d = [] \<or> hd d = chr_dq \<Longrightarrow> c \<noteq> chr_nl \<Longrightarrow>
            (d @ c # r) \<noteq> [] \<and> hd (d @ c # r) \<noteq> chr_nl" for d c r
    by (cases d) (auto simp: chr_dq_def chr_nl_def)
  show ?thesis
  proof (cases t)
    case (GraphQLScalarType name desc)
    with assms obtain d where "print_description desc [] True = Inr d"
      "b = d @ ''scalar '' @ name"
      by (auto simp: print_scalar_def bind_err_def split: sum.splits)
    then show ?thesis using top_description_head[of desc d] k[of d "CHR ''s''"]
      by (auto simp: chr_nl_def)
  next
    case (GraphQLObjectType name desc ia fa)
    with assms obtain d r where "print_description desc [] True = Inr d"
      "b = d @ ''type '' @ r"
      by (auto simp: print_object_def bind_err_def Let_def split: sum.splits)
    then show ?thesis using top_description_head[of desc d] k[of d "CHR ''t''"]
      by (auto simp: chr_nl_def)
  next
    case (GraphQLInterfaceType name desc fa)
    with assms obtain d r where "print_description desc [] True = Inr d"
      "b = d @ ''interface '' @ r"
      by (auto simp: print_interface_def bind_err_def split: sum.splits)
    then show ?thesis using top_description_head[of desc d] k[of d "CHR ''i''"]
      by (auto simp: chr_nl_def)
  next
    case (GraphQLUnionType name desc ta)
    with assms obtain d r where "print_description desc [] True = Inr d"
      "b = d @ ''union '' @ r"
      by (auto simp: print_union_def bind_err_def split: sum.splits)
    then show ?thesis using top_description_head[of desc d] k[of d "CHR ''u''"]
      by (auto simp: chr_nl_def)
  next
    case (GraphQLEnumType name desc vals)
    with assms obtain d r where "print_description desc [] True = Inr d"
      "b = d @ ''enum '' @ r"
      by (auto simp: print_enum_def bind_err_def Let_def split: sum.splits)
    then show ?thesis using top_description_head[of desc d] k[of d "CHR ''e''"]
      by (auto simp: chr_nl_def)
  next
    case (GraphQLInputObjectType name desc fa)
    with assms obtain d r where "print_description desc [] True = Inr d"
      "b = d @ ''input '' @ r"
      by (auto simp: print_input_object_def bind_err_def Let_def split: sum.splits)
    then show ?thesis using top_description_head[of desc d] k[of d "CHR ''i''"]
      by (auto simp: chr_nl_def)
  next
    case OtherType
    with assms show ?thesis by simp
  qed
qed

lemma print_type_brace:
  assumes "print_type env t = Inr b"
    and "\<forall>name desc. t \<noteq> GraphQLScalarType name desc"
    and "\<forall>name desc types_attribute. t \<noteq> GraphQLUnionType name desc types_attribute"
  shows "last b = CHR ''}''"
  using assms
  by (cases t)
     (auto simp: print_object_def print_interface_def print_enum_def print_input_object_def
                 bind_err_def Let_def
           split: sum.splits)

lemma print_schema_definition_ends:
  "print_schema_definition schema \<noteq> [] \<and> hd (print_schema_definition schema) \<noteq> chr_nl
   \<and> last (print_schema_definition schema) = CHR ''}''"
  by (simp add: print_schema_definition_def chr_nl_def)


lemma blocks_text:
  assumes ne: "\<forall>b \<in> set B. b \<noteq> [] \<and> hd b \<noteq> chr_nl"
  shows "(\<forall>i. Suc i < length B \<and> last (B ! i) \<noteq> chr_nl \<longrightarrow>
            str_join sep B = str_join sep (take (Suc i) B) @ sep @ str_join sep (drop (Suc i) B)
            \<and> str_join sep (take (Suc i) B) \<noteq> []
            \<and> last (str_join sep (take (Suc i) B)) \<noteq> chr_nl
            \<and> str_join sep (drop (Suc i) B) \<noteq> []
            \<and> hd (str_join sep (drop (Suc i) B)) \<noteq> chr_nl)
       \<and> (B \<noteq> [] \<and> last (last B) \<noteq> chr_nl \<longrightarrow>
            str_join sep B \<noteq> [] \<and> last (str_join sep B) \<noteq> chr_nl)"
proof (intro conjI allI impI)
  fix i assume i: "Suc i < length B \<and> last (B ! i) \<noteq> chr_nl"
  let ?l = "take (Suc i) B" and ?r = "drop (Suc i) B"
  have l: "?l \<noteq> []" and r: "?r \<noteq> []" using i by auto
  have ll: "last ?l = B ! i" using i by (simp add: take_Suc_conv_app_nth)
  have hr: "hd ?r = B ! Suc i" using i by (simp add: hd_drop_conv_nth)
  have "B ! i \<in> set B" "B ! Suc i \<in> set B" using i by simp_all
  then have n1: "B ! i \<noteq> []" and n2: "B ! Suc i \<noteq> [] \<and> hd (B ! Suc i) \<noteq> chr_nl"
    using ne by blast+
  show "str_join sep B = str_join sep ?l @ sep @ str_join sep ?r"
    using str_join_append[OF l r, of sep] by simp
  show "str_join sep ?l \<noteq> []" "last (str_join sep ?l) \<noteq> chr_nl"
    using str_join_last[OF l, of sep] ll n1 i by simp_all
  show "str_join sep ?r \<noteq> []" "hd (str_join sep ?r) \<noteq> chr_nl"
    using str_join_hd[OF r, of sep] hr n2 by simp_all
next
  assume a: "B \<noteq> [] \<and> last (last B) \<noteq> chr_nl"
  then have "last B \<in> set B" by simp
  then have "last B \<noteq> []" using ne by blast
  then show "str_join sep B \<noteq> []" "last (str_join sep B) \<noteq> chr_nl"
    using str_join_last[of B sep] a by simp_all
qed

lemma print_filtered_schema_layout:
  assumes "\<forall>(typename, t) \<in> set (type_map schema). type_filter typename \<longrightarrow> printable t"
  shows "\<exists>ds ts dblocks tblocks.
           print_filtered_schema env schema directive_filter type_filter
             = Inr (str_join [chr_nl, chr_nl] (print_schema_definition schema # dblocks @ tblocks)
                    @ [chr_nl])
           \<and> ds = filter (\<lambda>d. directive_filter (dir_name d)) (directives schema)
           \<and> map Inr dblocks = map (print_directive env) ds
           \<and> mset ts = filter_mset (\<lambda>(typename, t). type_filter typename) (mset (type_map schema))
           \<and> sorted (map fst ts)
           \<and> map Inr tblocks = map (\<lambda>(typename, t). print_type env t) ts
           \<and> (\<forall>b \<in> set (print_schema_definition schema # dblocks @ tblocks).
                 b \<noteq> [] \<and> hd b \<noteq> chr_nl)"
proof -
  obtain dblocks tblocks where b:
    "print_filtered_schema env schema directive_filter type_filter
             = Inr (str_join [chr_nl, chr_nl] (print_schema_definition schema # dblocks @ tblocks)
                    @ [chr_nl])"
    "map Inr dblocks
               = map (print_directive env)
                   (filter (\<lambda>d. directive_filter (dir_name d)) (directives schema))"
    "map Inr tblocks
               = map (\<lambda>(typename, t). print_type env t)
                   (filter (\<lambda>(typename, t). type_filter typename)
                      (sort_key fst (type_map schema)))"
    using print_filtered_schema_blocks[OF assms] by blast
  define ts where
    "ts = filter (\<lambda>(typename, t). type_filter typename) (sort_key fst (type_map schema))"
  have m: "mset ts = filter_mset (\<lambda>(typename, t). type_filter typename) (mset (type_map schema))"
    by (simp add: ts_def)
  have s: "sorted (map fst ts)"
    unfolding ts_def by (rule sorted_filter) (rule sorted_sort_key)
  have dne: "x \<noteq> [] \<and> hd x \<noteq> chr_nl" if "x \<in> set dblocks" for x
  proof -
    from that have "Inr x \<in> set (map Inr dblocks :: (error + string) list)" by simp
    then obtain d where "print_directive env d = Inr x" unfolding b(2) by auto
    then show ?thesis by (rule print_directive_head)
  qed
  have tne: "x \<noteq> [] \<and> hd x \<noteq> chr_nl" if "x \<in> set tblocks" for x
  proof -
    from that have "Inr x \<in> set (map Inr tblocks :: (error + string) list)" by simp
    then obtain t where "print_type env t = Inr x" unfolding b(3) by auto
    then show ?thesis by (rule print_type_head)
  qed
  have h: "\<forall>b \<in> set (print_schema_definition schema # dblocks @ tblocks).
                 b \<noteq> [] \<and> hd b \<noteq> chr_nl"
    using dne tne print_schema_definition_ends[of schema] by auto
  show ?thesis
    by (rule exI[of _ "filter (\<lambda>d. directive_filter (dir_name d)) (directives schema)"],
        rule exI[of _ ts], rule exI[of _ dblocks], rule exI[of _ tblocks])
       (use b m s h in \<open>simp add: ts_def\<close>)
qed


lemma print_type_shapes:
  "(\<exists>d. print_description desc [] True = Inr d
      \<and> print_type env (GraphQLScalarType name desc) = Inr (d @ ''scalar '' @ name))
   \<and> (\<exists>d lines. print_description desc [] True = Inr d
         \<and> map Inr lines = map (field_line env) (enumerate 0 (fld # flds))
         \<and> print_type env (GraphQLObjectType name desc (Value interfaces) (Value (fld # flds)))
             = Inr (d @ ''type '' @ name
                    @ (if interfaces = [] then []
                       else '' implements '' @ str_join '', '' interfaces)
                    @ '' {'' @ [chr_nl] @ str_join [chr_nl] lines @ [chr_nl] @ ''}''))
   \<and> (\<exists>d lines. print_description desc [] True = Inr d
         \<and> map Inr lines = map (field_line env) (enumerate 0 (fld # flds))
         \<and> print_type env (GraphQLInterfaceType name desc (Value (fld # flds)))
             = Inr (d @ ''interface '' @ name @ '' {'' @ [chr_nl] @ str_join [chr_nl] lines
                    @ [chr_nl] @ ''}''))
   \<and> (\<exists>d. print_description desc [] True = Inr d
         \<and> print_type env (GraphQLUnionType name desc (Value (member # members)))
             = Inr (d @ ''union '' @ name @ '' = '' @ str_join '' | '' (member # members)))
   \<and> (\<exists>d lines. print_description desc [] True = Inr d
         \<and> map Inr lines = map (enum_value_line env) (enumerate 0 vals)
         \<and> print_type env (GraphQLEnumType name desc vals)
             = Inr (d @ ''enum '' @ name @ '' {'' @ [chr_nl] @ str_join [chr_nl] lines
                    @ [chr_nl] @ ''}''))
   \<and> (\<exists>d lines. print_description desc [] True = Inr d
         \<and> map Inr lines = map (input_value_line env) (enumerate 0 (inp # inps))
         \<and> print_type env (GraphQLInputObjectType name desc (Value (inp # inps)))
             = Inr (d @ ''input '' @ name @ '' {'' @ [chr_nl] @ str_join [chr_nl] lines
                    @ [chr_nl] @ ''}''))"
proof -
  have ri: "read_attribute (Value interfaces) = Inr interfaces" by simp
  have rf: "read_nonempty (Value (fld # flds)) = Inr (fld # flds)" by simp
  have rm: "read_nonempty (Value (member # members)) = Inr (member # members)" by simp
  have rn: "read_nonempty (Value (inp # inps)) = Inr (inp # inps)" by simp
  have c12: "\<exists>d. print_description desc [] True = Inr d
         \<and> print_type env (GraphQLScalarType name desc) = Inr (d @ ''scalar '' @ name)"
    using print_scalar_shape[of desc name] by simp
  have c13: "\<exists>d lines. print_description desc [] True = Inr d
         \<and> map Inr lines = map (field_line env) (enumerate 0 (fld # flds))
         \<and> print_type env (GraphQLObjectType name desc (Value interfaces) (Value (fld # flds)))
             = Inr (d @ ''type '' @ name
                    @ (if interfaces = [] then []
                       else '' implements '' @ str_join '', '' interfaces)
                    @ '' {'' @ [chr_nl] @ str_join [chr_nl] lines @ [chr_nl] @ ''}'')"
    using print_object_shape[OF ri rf, of desc env name] by (simp only: print_type.simps)
  have c14: "\<exists>d lines. print_description desc [] True = Inr d
         \<and> map Inr lines = map (field_line env) (enumerate 0 (fld # flds))
         \<and> print_type env (GraphQLInterfaceType name desc (Value (fld # flds)))
             = Inr (d @ ''interface '' @ name @ '' {'' @ [chr_nl] @ str_join [chr_nl] lines
                    @ [chr_nl] @ ''}'')"
    using print_interface_shape[OF rf, of desc env name] by (simp only: print_type.simps)
  have c15: "\<exists>d. print_description desc [] True = Inr d
         \<and> print_type env (GraphQLUnionType name desc (Value (member # members)))
             = Inr (d @ ''union '' @ name @ '' = '' @ str_join '' | '' (member # members))"
    using print_union_shape[OF rm, of desc name] by (simp only: print_type.simps)
  have c16: "\<exists>d lines. print_description desc [] True = Inr d
         \<and> map Inr lines = map (enum_value_line env) (enumerate 0 vals)
         \<and> print_type env (GraphQLEnumType name desc vals)
             = Inr (d @ ''enum '' @ name @ '' {'' @ [chr_nl] @ str_join [chr_nl] lines
                    @ [chr_nl] @ ''}'')"
    using print_enum_shape[of desc env vals name] by (simp only: print_type.simps)
  have c17: "\<exists>d lines. print_description desc [] True = Inr d
         \<and> map Inr lines = map (input_value_line env) (enumerate 0 (inp # inps))
         \<and> print_type env (GraphQLInputObjectType name desc (Value (inp # inps)))
             = Inr (d @ ''input '' @ name @ '' {'' @ [chr_nl] @ str_join [chr_nl] lines
                    @ [chr_nl] @ ''}'')"
    using print_input_object_shape[OF rn, of desc env name] by (simp only: print_type.simps)
  show ?thesis
    using c12 c13 c14 c15 c16 c17 by (intro conjI)
qed

lemma print_filtered_schema_text:
  assumes "\<forall>(typename, t) \<in> set (type_map schema). type_filter typename \<longrightarrow> printable t"
  shows "\<exists>ds ts dblocks tblocks blocks.
           blocks = print_schema_definition schema # dblocks @ tblocks
           \<and> print_filtered_schema env schema directive_filter type_filter
               = Inr (str_join [chr_nl, chr_nl] blocks @ [chr_nl])
           \<and> ds = filter (\<lambda>d. directive_filter (dir_name d)) (directives schema)
           \<and> map Inr dblocks = map (print_directive env) ds
           \<and> mset ts = filter_mset (\<lambda>(typename, t). type_filter typename) (mset (type_map schema))
           \<and> sorted (map fst ts)
           \<and> map Inr tblocks = map (\<lambda>(typename, t). print_type env t) ts
           \<and> (\<forall>b \<in> set blocks. b \<noteq> [] \<and> hd b \<noteq> chr_nl)
           \<and> (\<forall>i. Suc i < length blocks \<and> last (blocks ! i) \<noteq> chr_nl \<longrightarrow>
                 str_join [chr_nl, chr_nl] blocks
                   = str_join [chr_nl, chr_nl] (take (Suc i) blocks) @ [chr_nl, chr_nl]
                     @ str_join [chr_nl, chr_nl] (drop (Suc i) blocks)
                 \<and> str_join [chr_nl, chr_nl] (take (Suc i) blocks) \<noteq> []
                 \<and> last (str_join [chr_nl, chr_nl] (take (Suc i) blocks)) \<noteq> chr_nl
                 \<and> str_join [chr_nl, chr_nl] (drop (Suc i) blocks) \<noteq> []
                 \<and> hd (str_join [chr_nl, chr_nl] (drop (Suc i) blocks)) \<noteq> chr_nl)
           \<and> (last (last blocks) \<noteq> chr_nl \<longrightarrow>
                 str_join [chr_nl, chr_nl] blocks \<noteq> []
                 \<and> last (str_join [chr_nl, chr_nl] blocks) \<noteq> chr_nl)"
proof -
  obtain ds ts dblocks tblocks where l:
    "print_filtered_schema env schema directive_filter type_filter
       = Inr (str_join [chr_nl, chr_nl] (print_schema_definition schema # dblocks @ tblocks)
              @ [chr_nl])"
    "ds = filter (\<lambda>d. directive_filter (dir_name d)) (directives schema)"
    "map Inr dblocks = map (print_directive env) ds"
    "mset ts = filter_mset (\<lambda>(typename, t). type_filter typename) (mset (type_map schema))"
    "sorted (map fst ts)"
    "map Inr tblocks = map (\<lambda>(typename, t). print_type env t) ts"
    "\<forall>b \<in> set (print_schema_definition schema # dblocks @ tblocks). b \<noteq> [] \<and> hd b \<noteq> chr_nl"
    using print_filtered_schema_layout[OF assms, of env directive_filter] by blast
  define blocks where "blocks = print_schema_definition schema # dblocks @ tblocks"
  have ne: "\<forall>b \<in> set blocks. b \<noteq> [] \<and> hd b \<noteq> chr_nl"
    using l(7) unfolding blocks_def .
  have nb: "blocks \<noteq> []" by (simp add: blocks_def)
  note t = blocks_text[OF ne, of "[chr_nl, chr_nl]"]
  have t1: "\<forall>i. Suc i < length blocks \<and> last (blocks ! i) \<noteq> chr_nl \<longrightarrow>
                 str_join [chr_nl, chr_nl] blocks
                   = str_join [chr_nl, chr_nl] (take (Suc i) blocks) @ [chr_nl, chr_nl]
                     @ str_join [chr_nl, chr_nl] (drop (Suc i) blocks)
                 \<and> str_join [chr_nl, chr_nl] (take (Suc i) blocks) \<noteq> []
                 \<and> last (str_join [chr_nl, chr_nl] (take (Suc i) blocks)) \<noteq> chr_nl
                 \<and> str_join [chr_nl, chr_nl] (drop (Suc i) blocks) \<noteq> []
                 \<and> hd (str_join [chr_nl, chr_nl] (drop (Suc i) blocks)) \<noteq> chr_nl"
    using t by (rule conjunct1)
  have t2: "last (last blocks) \<noteq> chr_nl \<longrightarrow>
                 str_join [chr_nl, chr_nl] blocks \<noteq> []
                 \<and> last (str_join [chr_nl, chr_nl] blocks) \<noteq> chr_nl"
    using t[THEN conjunct2] nb by blast
  have o: "print_filtered_schema env schema directive_filter type_filter
               = Inr (str_join [chr_nl, chr_nl] blocks @ [chr_nl])"
    using l(1) unfolding blocks_def .
  show ?thesis
    apply (rule exI[of _ ds], rule exI[of _ ts], rule exI[of _ dblocks], rule exI[of _ tblocks],
           rule exI[of _ blocks])
    using blocks_def o l(2) l(3) l(4) l(5) l(6) ne t1 t2 by (intro conjI)
qed

section \<open>The claims\<close>

text \<open>
  C10. Whatever the line and the maximum length, the sublines that the line-wrap routine
  returns, joined with one space between consecutive sublines, are the original line: wrapping
  removes nothing but the one space at each break. The routine does return sublines for every
  line shorter than the maximum length plus 5, and for every line at all when the maximum
  length is below 40, or at least 55 and below the repetition limit of the pattern plus 40;
  in the remaining cases the pattern is rejected and nothing is returned.
\<close>

theorem break_lines_rejoin:
  "(\<forall>subs. break_lines line max_len = Inr subs \<longrightarrow> str_join [chr_sp] subs = line)
   \<and> (int (length line) < max_len + 5 \<or> max_len < 40
        \<or> (55 \<le> max_len \<and> max_len < MAXREPEAT + 40)
      \<longrightarrow> (\<exists>subs. break_lines line max_len = Inr subs))"
  using break_lines_outcome[of line max_len] by auto

theorem break_lines_rejoin_witness:
  "break_lines ''The quick brown fox jumps over the lazy dog and keeps running far away into the night'' 60
     = Inr [''The quick brown fox'', ''jumps over the lazy dog'', ''and keeps running'',
            ''far away into the night'']
   \<and> str_join [chr_sp] [''The quick brown fox'', ''jumps over the lazy dog'', ''and keeps running'',
            ''far away into the night'']
     = ''The quick brown fox jumps over the lazy dog and keeps running far away into the night''
   \<and> (55 \<le> (60::int) \<and> (60::int) < MAXREPEAT + 40)"
proof -
  have h: "break_lines ''The quick brown fox jumps over the lazy dog and keeps running far away into the night'' 60
     = Inr [''The quick brown fox'', ''jumps over the lazy dog'', ''and keeps running'',
            ''far away into the night'']"
    by code_simp
  have "str_join [chr_sp] [''The quick brown fox'', ''jumps over the lazy dog'', ''and keeps running'',
            ''far away into the night'']
     = ''The quick brown fox jumps over the lazy dog and keeps running far away into the night''"
    using break_lines_rejoin[of "''The quick brown fox jumps over the lazy dog and keeps running far away into the night''" 60] h
    by blast
  then show ?thesis using h by (simp add: MAXREPEAT_def)
qed

text \<open>
  C5. The schema definition block is the wrapper \<^verbatim>\<open>schema {\<close> ... \<^verbatim>\<open>}\<close> around one line for
  each root type that is present, indented by two spaces, in the order query, mutation,
  subscription, and nothing for a root type that is absent. When no root type is present the
  wrapper is emitted all the same, around an empty line.
\<close>

theorem print_schema_definition_wrapper:
  "print_schema_definition schema =
     ''schema {'' @ [chr_nl]
     @ str_join [chr_nl]
         (concat (map (\<lambda>(label, root). case root of None \<Rightarrow> [] | Some t \<Rightarrow> [''  '' @ label @ '': '' @ t])
            [(''query'', query_type schema), (''mutation'', mutation_type schema),
             (''subscription'', subscription_type schema)]))
     @ [chr_nl] @ ''}''
   \<and> (query_type schema = None \<and> mutation_type schema = None \<and> subscription_type schema = None
        \<longrightarrow> print_schema_definition schema = ''schema {'' @ [chr_nl, chr_nl] @ ''}'')"
  by (simp add: print_schema_definition_def split: option.splits)

theorem print_schema_definition_wrapper_witness:
  "print_schema_definition
     \<lparr>query_type = None, mutation_type = None, subscription_type = None,
      directives = [], type_map = []\<rparr>
   = ''schema {'' @ [chr_nl, chr_nl] @ ''}''"
  using print_schema_definition_wrapper
    [of "\<lparr>query_type = None, mutation_type = None, subscription_type = None,
          directives = [], type_map = []\<rparr>"]
  by simp

text \<open>
  C7. The deprecation annotation is empty when the reason is \<^verbatim>\<open>None\<close>; it is
  \<^verbatim>\<open> @deprecated\<close> when the reason is the empty string or the default deprecation reason; for
  any other reason it is \<^verbatim>\<open> @deprecated(reason: \<close> followed by the literal text of the reason
  and a closing parenthesis.
\<close>

theorem print_deprecated_cases:
  "print_deprecated env None = []
   \<and> print_deprecated env (Some []) = '' @deprecated''
   \<and> print_deprecated env (Some (DEFAULT_DEPRECATION_REASON env)) = '' @deprecated''
   \<and> (reason \<noteq> [] \<and> reason \<noteq> DEFAULT_DEPRECATION_REASON env \<longrightarrow>
        print_deprecated env (Some reason)
          = '' @deprecated(reason: '' @ literal_text env (PyStr reason) None @ '')'')"
  by (simp add: print_deprecated_def)

theorem print_deprecated_cases_witness:
  "''use GREEN2'' \<noteq> [] \<and> ''use GREEN2'' \<noteq> DEFAULT_DEPRECATION_REASON sample_env
   \<and> print_deprecated sample_env (Some ''use GREEN2'')
       = '' @deprecated(reason: '' @ [chr_dq] @ ''use GREEN2'' @ [chr_dq] @ '')''"
  using print_deprecated_cases [of sample_env "''use GREEN2''"]
  by (simp add: sample_env_def chr_dq_def chr_bs_def)

text \<open>
  C3 (as amended). When the wrapped form of a description is exactly one line that is not
  empty, is shorter than 70 characters and does not end in a double quote, the formatter
  emits the single-line shorthand: the indentation, three double quotes, the escaped line,
  three double quotes and a line feed. The leading blank line is applied to the shorthand as
  it is to the multi-line form: when the indentation is not empty and the description is not
  the first in its block, a line feed comes before the indentation.
\<close>

theorem print_description_shorthand:
  assumes "description_lines dtext (MAX_DESC_LEN - int (length indentation)) = Inr [line]"
    and "0 < length line" and "length line < 70" and "last line \<noteq> chr_dq"
  shows "print_description (Some dtext) indentation first_in_block
           = Inr ((if indentation \<noteq> [] \<and> \<not> first_in_block then [chr_nl] @ indentation
                   else indentation)
                  @ triple_quote @ escape_quote line @ triple_quote @ [chr_nl])"
proof -
  have "desc_truthy (Some dtext)"
  proof (cases dtext)
    case (DescStr s)
    have "s \<noteq> []"
    proof
      assume "s = []"
      with DescStr assms(1) have "line = []"
        by (simp add: description_lines_def split_nl_def)
      with assms(2) show False by simp
    qed
    with DescStr show ?thesis by (simp add: desc_truthy_def)
  next
    case (DescCallable s)
    then show ?thesis by (simp add: desc_truthy_def)
  qed
  then show ?thesis using assms
    by (simp add: print_description_def bind_err_def)
qed

theorem print_description_shorthand_witness:
  "description_lines (DescStr ''green'') (MAX_DESC_LEN - int (length ''  '')) = Inr [''green'']
   \<and> 0 < length ''green'' \<and> length ''green'' < 70 \<and> last ''green'' \<noteq> chr_dq
   \<and> print_description (Some (DescStr ''green'')) ''  '' False
       = Inr ([chr_nl] @ ''  '' @ triple_quote @ ''green'' @ triple_quote @ [chr_nl])"
proof -
  have h: "description_lines (DescStr ''green'') (MAX_DESC_LEN - int (length ''  '')) = Inr [''green'']"
    by code_simp
  have e: "escape_quote ''green'' = ''green''"
    by code_simp
  show ?thesis
    using h e print_description_shorthand[OF h, of False]
    by (simp add: chr_dq_def)
qed

text \<open>The shorthand as the claim has it, without the leading line feed, is not what is emitted
  for an indented description that is not first in its block.\<close>

theorem print_description_shorthand_counterexample:
  "description_lines (DescStr ''green'') (MAX_DESC_LEN - int (length ''  '')) = Inr [''green'']
   \<and> print_description (Some (DescStr ''green'')) ''  '' False
       \<noteq> Inr (''  '' @ triple_quote @ escape_quote ''green'' @ triple_quote @ [chr_nl])"
  by code_simp

text \<open>
  C4 (as amended). A line shorter than the maximum length plus 5 is returned unwrapped,
  whatever the maximum length. For a longer line the pattern is built from the maximum
  length minus 40: it is rejected, and the routine raises, exactly when that number is from
  0 to 14 or reaches the repetition limit. When the pattern compiles, the line is returned
  unwrapped if the split yields fewer than 4 parts; otherwise the first subline is the
  concatenation of the first three parts, and each later subline is the next match, without
  the space it begins with, followed by the part after it. For a maximum length of at
  least 55 (below the limit) the split is the one the specification describes: the parts
  make up the line, every match is a break point (it starts at position 0 or with a space,
  spans 15 to the maximum length minus 40 characters, and is followed by a space or the end
  of the line), and the split has a match whenever the line has such a break point.
\<close>

theorem break_lines_wrapping:
  "(int (length line) < max_len + 5 \<longrightarrow> break_lines line max_len = Inr [line])
   \<and> ((\<exists>e. compile_split_re max_len = Inl e)
        \<longleftrightarrow> (40 \<le> max_len \<and> max_len < 55) \<or> MAXREPEAT + 40 \<le> max_len)
   \<and> (\<not> int (length line) < max_len + 5 \<and> compile_split_re max_len = Inl e \<longrightarrow>
        break_lines line max_len = Inl e)
   \<and> (\<not> int (length line) < max_len + 5 \<and> compile_split_re max_len = Inr p
        \<and> parts = re_split p True line \<longrightarrow>
          (length parts < 4 \<longrightarrow> break_lines line max_len = Inr [line])
          \<and> (4 \<le> length parts \<longrightarrow>
               (\<exists>subs. break_lines line max_len = Inr subs
                  \<and> length subs = (length parts - 1) div 2
                  \<and> subs ! 0 = parts ! 0 @ parts ! 1 @ parts ! 2
                  \<and> (\<forall>k. 1 \<le> k \<and> k < length subs \<longrightarrow>
                        (\<exists>x. parts ! (2 * k + 1) = chr_sp # x)
                        \<and> subs ! k = tl (parts ! (2 * k + 1)) @ parts ! (2 * k + 2)))))
   \<and> (55 \<le> max_len \<and> max_len < MAXREPEAT + 40
        \<and> parts = re_split (Repeat (nat (max_len - 40))) True line \<longrightarrow>
          compile_split_re max_len = Inr (Repeat (nat (max_len - 40)))
          \<and> concat parts = line \<and> odd (length parts)
          \<and> (\<forall>j. 2 * j + 1 < length parts \<longrightarrow>
                break_span max_len (concat (take (2 * j + 1) parts) = [])
                  (parts ! (2 * j + 1)) (concat (drop (2 * j + 2) parts)))
          \<and> ((\<exists>pre m rest. line = pre @ m @ rest \<and> break_span max_len (pre = []) m rest)
               \<longleftrightarrow> 1 < length parts))"
proof -
  have rejected: "(\<exists>e. compile_split_re max_len = Inl e)
        \<longleftrightarrow> (40 \<le> max_len \<and> max_len < 55) \<or> MAXREPEAT + 40 \<le> max_len"
    using compile_split_re_cases[of max_len] by (auto simp: MAXREPEAT_def)
  have spans: "compile_split_re max_len = Inr (Repeat (nat (max_len - 40)))
          \<and> concat parts = line \<and> odd (length parts)
          \<and> (\<forall>j. 2 * j + 1 < length parts \<longrightarrow>
                break_span max_len (concat (take (2 * j + 1) parts) = [])
                  (parts ! (2 * j + 1)) (concat (drop (2 * j + 2) parts)))
          \<and> ((\<exists>pre m rest. line = pre @ m @ rest \<and> break_span max_len (pre = []) m rest)
               \<longleftrightarrow> 1 < length parts)"
    if range: "55 \<le> max_len \<and> max_len < MAXREPEAT + 40"
      and parts: "parts = re_split (Repeat (nat (max_len - 40))) True line"
  proof -
    define N where "N = nat (max_len - 40)"
    have N: "int N = max_len - 40" using range by (simp add: N_def)
    have c: "compile_split_re max_len = Inr (Repeat N)"
      using range compile_split_re_cases[of max_len] by (auto simp: N_def)
    have sp: "\<forall>j. 2 * j + 1 < length parts \<longrightarrow>
                break_span max_len (concat (take (2 * j + 1) parts) = [])
                  (parts ! (2 * j + 1)) (concat (drop (2 * j + 2) parts))"
      using re_split_spans[OF N, of _ True line] parts by (simp add: N_def)
    have found: "1 < length parts"
      if "\<exists>pre m rest. line = pre @ m @ rest \<and> break_span max_len (pre = []) m rest"
    proof -
      from that obtain pre m rest where
        "line = pre @ m @ rest" "break_span max_len (True \<and> pre = []) m rest" by auto
      then obtain y where y: "search (Repeat N) True line = Some y"
        using search_complete[OF N, of True pre m rest] by auto
      obtain s m' t where "y = (s, m', t)" by (cases y)
      with y show ?thesis using parts by (simp add: N_def[symmetric] re_split_Some)
    qed
    have exists: "\<exists>pre m rest. line = pre @ m @ rest \<and> break_span max_len (pre = []) m rest"
      if "1 < length parts"
    proof -
      have cat: "concat parts = line" using parts by (simp add: re_split_concat)
      have "break_span max_len (concat (take 1 parts) = []) (parts ! 1) (concat (drop 2 parts))"
        using sp[rule_format, of 0] that by (simp add: numeral_2_eq_2)
      moreover have "line = concat (take 1 parts) @ parts ! 1 @ concat (drop 2 parts)"
      proof -
        have "parts = take 1 parts @ parts ! 1 # drop 2 parts"
          using that id_take_nth_drop[of 1 parts] by (simp add: numeral_2_eq_2)
        then have "concat parts = concat (take 1 parts @ parts ! 1 # drop 2 parts)" by simp
        then show ?thesis using cat by simp
      qed
      ultimately show ?thesis by blast
    qed
    show ?thesis
      using c sp found exists parts
      by (auto simp: N_def re_split_concat re_split_odd)
  qed
  show ?thesis
    using break_lines_short[of line max_len] break_lines_rejected[of line max_len e]
      break_lines_structure[of line max_len p parts] rejected spans
    by blast
qed


theorem break_lines_wrapping_witness:
  "int (length ''short'') < 60 + 5 \<and> break_lines ''short'' 60 = Inr [''short'']
   \<and> \<not> int (length (replicate 55 (CHR ''a''))) < 50 + 5
   \<and> compile_split_re 50 = Inl PatternError
   \<and> break_lines (replicate 55 (CHR ''a'')) 50 = Inl PatternError
   \<and> \<not> int (length (replicate 70 (CHR ''a''))) < 60 + 5
   \<and> compile_split_re 60 = Inr (Repeat 20)
   \<and> re_split (Repeat 20) True (replicate 70 (CHR ''a'')) = [replicate 70 (CHR ''a'')]
   \<and> break_lines (replicate 70 (CHR ''a'')) 60 = Inr [replicate 70 (CHR ''a'')]
   \<and> \<not> int (length sample_line) < 60 + 5
   \<and> re_split (Repeat 20) True sample_line
       = [[], ''The quick brown fox'', [], '' jumps over the lazy'', '' dog'',
          '' and keeps running'', [], '' far away into the'', '' night'']
   \<and> (\<exists>subs. break_lines sample_line 60 = Inr subs
          \<and> length subs = 4
          \<and> subs ! 0 = ''The quick brown fox''
          \<and> subs ! 1 = ''jumps over the lazy dog''
          \<and> subs ! 2 = ''and keeps running''
          \<and> subs ! 3 = ''far away into the night'')
   \<and> (55 \<le> (60::int) \<and> (60::int) < MAXREPEAT + 40)
   \<and> break_span 60 True ''The quick brown fox''
         '' jumps over the lazy dog and keeps running far away into the night''
   \<and> break_span 60 False '' jumps over the lazy''
         '' dog and keeps running far away into the night''
   \<and> (\<exists>pre m rest. sample_line = pre @ m @ rest \<and> break_span 60 (pre = []) m rest)"
proof -
  let ?parts = "[[], ''The quick brown fox'', [], '' jumps over the lazy'', '' dog'',
          '' and keeps running'', [], '' far away into the'', '' night'']"
  have s1: "int (length ''short'') < 60 + 5" by simp
  have a55: "\<not> int (length (replicate 55 (CHR ''a''))) < 50 + 5" by simp
  have c50: "compile_split_re 50 = Inl PatternError" by code_simp
  have a70: "\<not> int (length (replicate 70 (CHR ''a''))) < 60 + 5" by simp
  have c60: "compile_split_re 60 = Inr (Repeat 20)" by code_simp
  have p70: "re_split (Repeat 20) True (replicate 70 (CHR ''a'')) = [replicate 70 (CHR ''a'')]"
    by code_simp
  have sl: "\<not> int (length sample_line) < 60 + 5" by (simp add: sample_line_def)
  have ps: "re_split (Repeat 20) True sample_line = ?parts" by code_simp
  have rng: "55 \<le> (60::int) \<and> (60::int) < MAXREPEAT + 40" by (simp add: MAXREPEAT_def)
  have n20: "Repeat (nat (60 - 40)) = Repeat 20" by simp
  have r1: "break_lines ''short'' 60 = Inr [''short'']"
    using break_lines_wrapping[of "''short''" 60] s1 by blast
  have r2: "break_lines (replicate 55 (CHR ''a'')) 50 = Inl PatternError"
    using break_lines_wrapping[of "replicate 55 (CHR ''a'')" 50 PatternError] a55 c50 by blast
  have r3: "break_lines (replicate 70 (CHR ''a'')) 60 = Inr [replicate 70 (CHR ''a'')]"
    using break_lines_wrapping[of "replicate 70 (CHR ''a'')" 60 _ "Repeat 20"
            "[replicate 70 (CHR ''a'')]"] a70 c60 p70
    by simp
  note w = break_lines_wrapping[of sample_line 60 _ "Repeat 20" ?parts]
  have "\<exists>subs. break_lines sample_line 60 = Inr subs
          \<and> length subs = (length ?parts - 1) div 2
          \<and> subs ! 0 = ?parts ! 0 @ ?parts ! 1 @ ?parts ! 2
          \<and> (\<forall>k. 1 \<le> k \<and> k < length subs \<longrightarrow>
                        (\<exists>x. ?parts ! (2 * k + 1) = chr_sp # x)
                        \<and> subs ! k = tl (?parts ! (2 * k + 1)) @ ?parts ! (2 * k + 2))"
    using w sl c60 ps by simp
  then obtain subs where subs: "break_lines sample_line 60 = Inr subs"
    "length subs = (length ?parts - 1) div 2"
    "subs ! 0 = ?parts ! 0 @ ?parts ! 1 @ ?parts ! 2"
    "\<forall>k. 1 \<le> k \<and> k < length subs \<longrightarrow>
         subs ! k = tl (?parts ! (2 * k + 1)) @ ?parts ! (2 * k + 2)"
    by blast
  have len: "length subs = 4" using subs(2) by simp
  have "subs ! 1 = tl (?parts ! (2 * 1 + 1)) @ ?parts ! (2 * 1 + 2)"
    "subs ! 2 = tl (?parts ! (2 * 2 + 1)) @ ?parts ! (2 * 2 + 2)"
    "subs ! 3 = tl (?parts ! (2 * 3 + 1)) @ ?parts ! (2 * 3 + 2)"
    using subs(4) len by simp_all
  then have r4: "\<exists>subs. break_lines sample_line 60 = Inr subs
          \<and> length subs = 4
          \<and> subs ! 0 = ''The quick brown fox''
          \<and> subs ! 1 = ''jumps over the lazy dog''
          \<and> subs ! 2 = ''and keeps running''
          \<and> subs ! 3 = ''far away into the night''"
    using subs(1,3) len by (intro exI[of _ subs]) simp
  have d: "(\<forall>j. 2 * j + 1 < length ?parts \<longrightarrow>
                break_span 60 (concat (take (2 * j + 1) ?parts) = [])
                  (?parts ! (2 * j + 1)) (concat (drop (2 * j + 2) ?parts)))
          \<and> ((\<exists>pre m rest. sample_line = pre @ m @ rest \<and> break_span 60 (pre = []) m rest)
               \<longleftrightarrow> 1 < length ?parts)"
    using w rng ps n20 by simp
  have r5: "break_span 60 True ''The quick brown fox''
         '' jumps over the lazy dog and keeps running far away into the night''"
    using d[THEN conjunct1, rule_format, of 0] by simp
  have r6: "break_span 60 False '' jumps over the lazy''
         '' dog and keeps running far away into the night''"
    using d[THEN conjunct1, rule_format, of 1] by simp
  have r7: "\<exists>pre m rest. sample_line = pre @ m @ rest \<and> break_span 60 (pre = []) m rest"
    using d[THEN conjunct2] by simp
  show ?thesis
    using s1 a55 c50 a70 c60 p70 sl ps rng r1 r2 r3 r4 r5 r6 r7 by blast
qed

text \<open>With a maximum length of 50 the spans of 15 to 10 characters that the claim speaks of
  do not exist, so by the claim a line of 55 characters is returned unwrapped; the routine
  raises.\<close>

theorem break_lines_wrapping_counterexample:
  "\<not> int (length (replicate 55 (CHR ''a''))) < 50 + 5
   \<and> \<not> (\<exists>pre m rest. replicate 55 (CHR ''a'') = pre @ m @ rest \<and> break_span 50 (pre = []) m rest)
   \<and> break_lines (replicate 55 (CHR ''a'')) 50 = Inl PatternError
   \<and> break_lines (replicate 55 (CHR ''a'')) 50 \<noteq> Inr [replicate 55 (CHR ''a'')]"
proof -
  have "\<not> break_span 50 b m rest" for b m rest
    by (auto simp: break_span_def span_ok_def split: list.splits)
  moreover have "break_lines (replicate 55 (CHR ''a'')) 50 = Inl PatternError"
    by code_simp
  ultimately show ?thesis by simp
qed

text \<open>
  C8 (as amended). In a description, every occurrence of three double quotes, found from
  left to right without overlap, is replaced by a backslash and three double quotes: a line
  without an occurrence is unchanged, and a line is escaped up to and including its leftmost
  occurrence, then from there on. Every wrapped line of a description is embedded in the
  block string in this escaped form, in the single-line shorthand and in the multi-line form
  alike, between the opening and the closing quotes. A deprecation reason is not escaped by
  the printer: the annotation holds the literal text of the reason as it is, whatever the
  rendering of literal text does to it.
\<close>

theorem escape_quote_descriptions:
  "(\<not> sublist triple_quote s \<longrightarrow> escape_quote s = s)
   \<and> (\<not> sublist triple_quote (a @ [chr_dq, chr_dq]) \<longrightarrow>
        escape_quote (a @ triple_quote @ b) = a @ chr_bs # triple_quote @ escape_quote b)
   \<and> (desc_truthy d \<and> print_description d indentation first_in_block = Inr out \<longrightarrow>
        (\<exists>dtext lines opener closer.
           d = Some dtext
           \<and> description_lines dtext (MAX_DESC_LEN - int (length indentation)) = Inr lines
           \<and> out = opener @ concat (map escape_quote lines) @ closer
           \<and> (\<exists>lead brk. opener = lead @ indentation @ triple_quote @ brk
                 \<and> lead \<in> {[], [chr_nl]} \<and> brk \<in> {[], [chr_nl]})
           \<and> closer \<in> {triple_quote @ [chr_nl], indentation @ triple_quote @ [chr_nl]}))
   \<and> (reason \<noteq> [] \<and> reason \<noteq> DEFAULT_DEPRECATION_REASON env \<longrightarrow>
        print_deprecated env (Some reason)
          = '' @deprecated(reason: '' @ literal_text env (PyStr reason) None @ '')'')"
proof -
  have r: "reason \<noteq> [] \<and> reason \<noteq> DEFAULT_DEPRECATION_REASON env \<longrightarrow>
        print_deprecated env (Some reason)
          = '' @deprecated(reason: '' @ literal_text env (PyStr reason) None @ '')''"
    by (simp add: print_deprecated_def)
  show ?thesis
    using escape_quote_absent[of s] escape_quote_leftmost[of a b]
      print_description_embeds[of d indentation first_in_block out] r
    unfolding sublist_def by blast
qed

theorem escape_quote_descriptions_witness:
  "\<not> sublist triple_quote ''plain'' \<and> escape_quote ''plain'' = ''plain''
   \<and> \<not> sublist triple_quote (''say '' @ [chr_dq, chr_dq])
   \<and> escape_quote (''say '' @ triple_quote @ ''hi'') = ''say '' @ chr_bs # triple_quote @ escape_quote ''hi''
   \<and> desc_truthy (Some (DescStr (''say '' @ triple_quote @ ''hi'' @ triple_quote)))
   \<and> print_description (Some (DescStr (''say '' @ triple_quote @ ''hi'' @ triple_quote))) [] True
       = Inr (triple_quote @ [chr_nl] @ ''say '' @ chr_bs # triple_quote @ ''hi''
              @ chr_bs # triple_quote @ triple_quote @ [chr_nl])
   \<and> (\<exists>dtext lines opener closer.
         Some (DescStr (''say '' @ triple_quote @ ''hi'' @ triple_quote)) = Some dtext
         \<and> description_lines dtext (MAX_DESC_LEN - int (length (''''::string))) = Inr lines
         \<and> triple_quote @ [chr_nl] @ ''say '' @ chr_bs # triple_quote @ ''hi''
              @ chr_bs # triple_quote @ triple_quote @ [chr_nl]
            = opener @ concat (map escape_quote lines) @ closer
         \<and> (\<exists>lead brk. opener = lead @ [] @ triple_quote @ brk
               \<and> lead \<in> {[], [chr_nl]} \<and> brk \<in> {[], [chr_nl]})
         \<and> closer \<in> {triple_quote @ [chr_nl], [] @ triple_quote @ [chr_nl]})
   \<and> ''a'' @ triple_quote @ ''b'' \<noteq> []
   \<and> ''a'' @ triple_quote @ ''b'' \<noteq> DEFAULT_DEPRECATION_REASON sample_env
   \<and> print_deprecated sample_env (Some (''a'' @ triple_quote @ ''b''))
       = '' @deprecated(reason: ''
         @ literal_text sample_env (PyStr (''a'' @ triple_quote @ ''b'')) None @ '')''"
proof -
  have w5: "''a'' @ triple_quote @ ''b'' \<noteq> []
            \<and> ''a'' @ triple_quote @ ''b'' \<noteq> DEFAULT_DEPRECATION_REASON sample_env"
    by (simp add: sample_env_def triple_quote_def chr_dq_def)
  have w1: "\<not> sublist triple_quote ''plain''"
    by code_simp
  have w2: "\<not> sublist triple_quote (''say '' @ [chr_dq, chr_dq])"
    by code_simp
  have w3: "desc_truthy (Some (DescStr (''say '' @ triple_quote @ ''hi'' @ triple_quote)))"
    by code_simp
  have w4: "print_description (Some (DescStr (''say '' @ triple_quote @ ''hi'' @ triple_quote))) [] True
       = Inr (triple_quote @ [chr_nl] @ ''say '' @ chr_bs # triple_quote @ ''hi''
              @ chr_bs # triple_quote @ triple_quote @ [chr_nl])"
    by code_simp
  show ?thesis
    using w1 w2 w3 w4 w5
      escape_quote_descriptions[of "''plain''" "''say ''" "''hi''"
        "Some (DescStr (''say '' @ triple_quote @ ''hi'' @ triple_quote))" "[]" True
        "triple_quote @ [chr_nl] @ ''say '' @ chr_bs # triple_quote @ ''hi''
              @ chr_bs # triple_quote @ triple_quote @ [chr_nl]"
        "''a'' @ triple_quote @ ''b''" sample_env]
    by blast
qed

text \<open>A deprecation reason with three double quotes in it: the rendering of literal text
  escapes each double quote on its own (each ends up behind three backslashes), so the
  output has no three double quotes in a row and nowhere the replacement, a backslash and
  three double quotes, that the claim speaks of.\<close>

theorem escape_quote_reason_counterexample:
  "print_deprecated sample_env (Some (''a'' @ triple_quote @ ''b''))
     = '' @deprecated(reason: '' @ [chr_dq] @ ''a''
        @ [chr_bs, chr_bs, chr_bs, chr_dq, chr_bs, chr_bs, chr_bs, chr_dq,
           chr_bs, chr_bs, chr_bs, chr_dq]
        @ ''b'' @ [chr_dq] @ '')''
   \<and> \<not> sublist (chr_bs # triple_quote)
         (print_deprecated sample_env (Some (''a'' @ triple_quote @ ''b'')))
   \<and> print_deprecated sample_env (Some (''a'' @ triple_quote @ ''b''))
     \<noteq> '' @deprecated(reason: ''
        @ literal_text sample_env (PyStr (escape_quote (''a'' @ triple_quote @ ''b''))) None @ '')''"
  by code_simp








text \<open>
  C2 (as amended). Both entry points are the filtered printer, each with its pair of filters.
  Whenever every type that passes the type filter is of a recognised kind with readable
  attributes, the output of the filtered printer is the schema definition block, then the
  blocks of the directives that pass the directive filter, in the order in which the schema
  declares them, then the blocks of the types that pass the type filter, sorted
  lexicographically by the name under which the type map holds them, with two line feeds
  between consecutive blocks and one line feed after the last block. No block is empty or
  begins with a line feed. So after a block that does not end in a line feed there is
  exactly one blank line before the next block, and when the last block does not end in a
  line feed the output ends in exactly one line feed. The blocks of object, interface, enum
  and input object types end in a closing brace, as the schema definition block does; a
  scalar block ends with the name of the type, a union block with its last member and a
  directive block with its last location, as they are given. Within a block the declared
  order is kept: a block holds the lines of its fields, of its input fields or of its enum
  values in their order, each line made of the description, the name, the arguments, the
  type and the deprecation; arguments are rendered in their order, on one line when none
  has a description and one per line otherwise; union members and directive locations are
  joined in their order.
\<close>

theorem print_schema_layout:
  "print_schema env schema
     = print_filtered_schema env schema (\<lambda>n. \<not> is_spec_directive n) is_defined_type
   \<and> print_introspection_schema env schema
     = print_filtered_schema env schema is_spec_directive is_introspection_type
   \<and> ((\<forall>(typename, t) \<in> set (type_map schema). type_filter typename \<longrightarrow> printable t) \<longrightarrow>
       (\<exists>ds ts dblocks tblocks blocks.
           blocks = print_schema_definition schema # dblocks @ tblocks
           \<and> print_filtered_schema env schema directive_filter type_filter
               = Inr (str_join [chr_nl, chr_nl] blocks @ [chr_nl])
           \<and> ds = filter (\<lambda>d. directive_filter (dir_name d)) (directives schema)
           \<and> map Inr dblocks = map (print_directive env) ds
           \<and> mset ts = filter_mset (\<lambda>(typename, t). type_filter typename) (mset (type_map schema))
           \<and> sorted (map fst ts)
           \<and> map Inr tblocks = map (\<lambda>(typename, t). print_type env t) ts
           \<and> (\<forall>b \<in> set blocks. b \<noteq> [] \<and> hd b \<noteq> chr_nl)
           \<and> (\<forall>i. Suc i < length blocks \<and> last (blocks ! i) \<noteq> chr_nl \<longrightarrow>
                 str_join [chr_nl, chr_nl] blocks
                   = str_join [chr_nl, chr_nl] (take (Suc i) blocks) @ [chr_nl, chr_nl]
                     @ str_join [chr_nl, chr_nl] (drop (Suc i) blocks)
                 \<and> str_join [chr_nl, chr_nl] (take (Suc i) blocks) \<noteq> []
                 \<and> last (str_join [chr_nl, chr_nl] (take (Suc i) blocks)) \<noteq> chr_nl
                 \<and> str_join [chr_nl, chr_nl] (drop (Suc i) blocks) \<noteq> []
                 \<and> hd (str_join [chr_nl, chr_nl] (drop (Suc i) blocks)) \<noteq> chr_nl)
           \<and> (last (last blocks) \<noteq> chr_nl \<longrightarrow>
                 str_join [chr_nl, chr_nl] blocks \<noteq> []
                 \<and> last (str_join [chr_nl, chr_nl] blocks) \<noteq> chr_nl)))
   \<and> last (print_schema_definition schema) = CHR ''}''
   \<and> (\<exists>d. print_description desc [] True = Inr d
         \<and> print_type env (GraphQLScalarType name desc) = Inr (d @ ''scalar '' @ name))
   \<and> (\<exists>d lines. print_description desc [] True = Inr d
         \<and> map Inr lines = map (field_line env) (enumerate 0 (fld # flds))
         \<and> print_type env (GraphQLObjectType name desc (Value interfaces) (Value (fld # flds)))
             = Inr (d @ ''type '' @ name
                    @ (if interfaces = [] then []
                       else '' implements '' @ str_join '', '' interfaces)
                    @ '' {'' @ [chr_nl] @ str_join [chr_nl] lines @ [chr_nl] @ ''}''))
   \<and> (\<exists>d lines. print_description desc [] True = Inr d
         \<and> map Inr lines = map (field_line env) (enumerate 0 (fld # flds))
         \<and> print_type env (GraphQLInterfaceType name desc (Value (fld # flds)))
             = Inr (d @ ''interface '' @ name @ '' {'' @ [chr_nl] @ str_join [chr_nl] lines
                    @ [chr_nl] @ ''}''))
   \<and> (\<exists>d. print_description desc [] True = Inr d
         \<and> print_type env (GraphQLUnionType name desc (Value (member # members)))
             = Inr (d @ ''union '' @ name @ '' = '' @ str_join '' | '' (member # members)))
   \<and> (\<exists>d lines. print_description desc [] True = Inr d
         \<and> map Inr lines = map (enum_value_line env) (enumerate 0 vals)
         \<and> print_type env (GraphQLEnumType name desc vals)
             = Inr (d @ ''enum '' @ name @ '' {'' @ [chr_nl] @ str_join [chr_nl] lines
                    @ [chr_nl] @ ''}''))
   \<and> (\<exists>d lines. print_description desc [] True = Inr d
         \<and> map Inr lines = map (input_value_line env) (enumerate 0 (inp # inps))
         \<and> print_type env (GraphQLInputObjectType name desc (Value (inp # inps)))
             = Inr (d @ ''input '' @ name @ '' {'' @ [chr_nl] @ str_join [chr_nl] lines
                    @ [chr_nl] @ ''}''))
   \<and> (\<exists>d a. print_description (dir_description directive) [] True = Inr d
         \<and> print_args env (dir_args directive) = Inr a
         \<and> print_directive env directive
             = Inr (d @ ''directive @'' @ dir_name directive @ a @ '' on ''
                    @ str_join '' | '' (dir_locations directive)))
   \<and> (\<exists>d a. print_description (field_description f) ''  '' (idx = 0) = Inr d
         \<and> print_args env (field_args f) = Inr a
         \<and> field_line env (idx, f_name, f)
             = Inr (d @ ''  '' @ f_name @ a @ '': '' @ field_type f
                    @ print_deprecated env (field_deprecation_reason f)))
   \<and> (\<exists>d. print_description (arg_description arg) ''  '' (idx = 0) = Inr d
         \<and> input_value_line env (idx, arg_name, arg)
             = Inr (d @ ''  '' @ print_input_value env arg_name arg))
   \<and> (\<exists>d. print_description (value_description v) ''  '' (idx = 0) = Inr d
         \<and> enum_value_line env (idx, v)
             = Inr (d @ ''  '' @ value_name v @ print_deprecated env (value_deprecation_reason v)))
   \<and> print_input_value env arg_name arg
       = arg_name @ '': '' @ arg_type arg
         @ (case arg_default_value arg of
              None \<Rightarrow> []
            | Some dv \<Rightarrow> '' = '' @ literal_text env dv (Some (arg_type arg)))
   \<and> print_args env [] = Inr []
   \<and> (args \<noteq> [] \<and> \<not> (\<exists>(arg_name, arg) \<in> set args. desc_truthy (arg_description arg)) \<longrightarrow>
        print_args env args
          = Inr (''('' @ str_join '', '' (map (\<lambda>(arg_name, arg). print_input_value env arg_name arg) args)
                 @ '')''))
   \<and> (args \<noteq> [] \<and> (\<exists>(arg_name, arg) \<in> set args. desc_truthy (arg_description arg)) \<longrightarrow>
        (\<exists>lines. print_args env args
                    = Inr (''('' @ [chr_nl] @ str_join [chr_nl] lines @ [chr_nl] @ '')'')
           \<and> map Inr lines = map (input_value_line env) (enumerate 0 args)))"
proof -
  have layout: "(\<forall>(typename, t) \<in> set (type_map schema). type_filter typename \<longrightarrow> printable t) \<longrightarrow>
       (\<exists>ds ts dblocks tblocks blocks.
           blocks = print_schema_definition schema # dblocks @ tblocks
           \<and> print_filtered_schema env schema directive_filter type_filter
               = Inr (str_join [chr_nl, chr_nl] blocks @ [chr_nl])
           \<and> ds = filter (\<lambda>d. directive_filter (dir_name d)) (directives schema)
           \<and> map Inr dblocks = map (print_directive env) ds
           \<and> mset ts = filter_mset (\<lambda>(typename, t). type_filter typename) (mset (type_map schema))
           \<and> sorted (map fst ts)
           \<and> map Inr tblocks = map (\<lambda>(typename, t). print_type env t) ts
           \<and> (\<forall>b \<in> set blocks. b \<noteq> [] \<and> hd b \<noteq> chr_nl)
           \<and> (\<forall>i. Suc i < length blocks \<and> last (blocks ! i) \<noteq> chr_nl \<longrightarrow>
                 str_join [chr_nl, chr_nl] blocks
                   = str_join [chr_nl, chr_nl] (take (Suc i) blocks) @ [chr_nl, chr_nl]
                     @ str_join [chr_nl, chr_nl] (drop (Suc i) blocks)
                 \<and> str_join [chr_nl, chr_nl] (take (Suc i) blocks) \<noteq> []
                 \<and> last (str_join [chr_nl, chr_nl] (take (Suc i) blocks)) \<noteq> chr_nl
                 \<and> str_join [chr_nl, chr_nl] (drop (Suc i) blocks) \<noteq> []
                 \<and> hd (str_join [chr_nl, chr_nl] (drop (Suc i) blocks)) \<noteq> chr_nl)
           \<and> (last (last blocks) \<noteq> chr_nl \<longrightarrow>
                 str_join [chr_nl, chr_nl] blocks \<noteq> []
                 \<and> last (str_join [chr_nl, chr_nl] blocks) \<noteq> chr_nl))"
    using print_filtered_schema_text[of schema type_filter env directive_filter] by blast
  have entry: "print_schema env schema
     = print_filtered_schema env schema (\<lambda>n. \<not> is_spec_directive n) is_defined_type"
    "print_introspection_schema env schema
     = print_filtered_schema env schema is_spec_directive is_introspection_type"
    by (simp_all add: print_schema_def print_introspection_schema_def)
  have brace: "last (print_schema_definition schema) = CHR ''}''"
    using print_schema_definition_ends[of schema] by blast
  have shapes: "(\<exists>d. print_description desc [] True = Inr d
         \<and> print_type env (GraphQLScalarType name desc) = Inr (d @ ''scalar '' @ name))
   \<and> (\<exists>d lines. print_description desc [] True = Inr d
         \<and> map Inr lines = map (field_line env) (enumerate 0 (fld # flds))
         \<and> print_type env (GraphQLObjectType name desc (Value interfaces) (Value (fld # flds)))
             = Inr (d @ ''type '' @ name
                    @ (if interfaces = [] then []
                       else '' implements '' @ str_join '', '' interfaces)
                    @ '' {'' @ [chr_nl] @ str_join [chr_nl] lines @ [chr_nl] @ ''}''))
   \<and> (\<exists>d lines. print_description desc [] True = Inr d
         \<and> map Inr lines = map (field_line env) (enumerate 0 (fld # flds))
         \<and> print_type env (GraphQLInterfaceType name desc (Value (fld # flds)))
             = Inr (d @ ''interface '' @ name @ '' {'' @ [chr_nl] @ str_join [chr_nl] lines
                    @ [chr_nl] @ ''}''))
   \<and> (\<exists>d. print_description desc [] True = Inr d
         \<and> print_type env (GraphQLUnionType name desc (Value (member # members)))
             = Inr (d @ ''union '' @ name @ '' = '' @ str_join '' | '' (member # members)))
   \<and> (\<exists>d lines. print_description desc [] True = Inr d
         \<and> map Inr lines = map (enum_value_line env) (enumerate 0 vals)
         \<and> print_type env (GraphQLEnumType name desc vals)
             = Inr (d @ ''enum '' @ name @ '' {'' @ [chr_nl] @ str_join [chr_nl] lines
                    @ [chr_nl] @ ''}''))
   \<and> (\<exists>d lines. print_description desc [] True = Inr d
         \<and> map Inr lines = map (input_value_line env) (enumerate 0 (inp # inps))
         \<and> print_type env (GraphQLInputObjectType name desc (Value (inp # inps)))
             = Inr (d @ ''input '' @ name @ '' {'' @ [chr_nl] @ str_join [chr_nl] lines
                    @ [chr_nl] @ ''}''))"
    by (rule print_type_shapes)
  have lines: "(\<exists>d a. print_description (dir_description directive) [] True = Inr d
         \<and> print_args env (dir_args directive) = Inr a
         \<and> print_directive env directive
             = Inr (d @ ''directive @'' @ dir_name directive @ a @ '' on ''
                    @ str_join '' | '' (dir_locations directive)))
   \<and> (\<exists>d a. print_description (field_description f) ''  '' (idx = 0) = Inr d
         \<and> print_args env (field_args f) = Inr a
         \<and> field_line env (idx, f_name, f)
             = Inr (d @ ''  '' @ f_name @ a @ '': '' @ field_type f
                    @ print_deprecated env (field_deprecation_reason f)))
   \<and> (\<exists>d. print_description (arg_description arg) ''  '' (idx = 0) = Inr d
         \<and> input_value_line env (idx, arg_name, arg)
             = Inr (d @ ''  '' @ print_input_value env arg_name arg))
   \<and> (\<exists>d. print_description (value_description v) ''  '' (idx = 0) = Inr d
         \<and> enum_value_line env (idx, v)
             = Inr (d @ ''  '' @ value_name v @ print_deprecated env (value_deprecation_reason v)))
   \<and> print_input_value env arg_name arg
       = arg_name @ '': '' @ arg_type arg
         @ (case arg_default_value arg of
              None \<Rightarrow> []
            | Some dv \<Rightarrow> '' = '' @ literal_text env dv (Some (arg_type arg)))"
    using print_directive_shape[of directive env] field_line_shape[of f idx env f_name]
      input_value_line_shape[of arg idx env arg_name] enum_value_line_shape[of v idx env]
      print_input_value_shape[of env arg_name arg]
    by (intro conjI)
  have args: "print_args env [] = Inr []
   \<and> (args \<noteq> [] \<and> \<not> (\<exists>(arg_name, arg) \<in> set args. desc_truthy (arg_description arg)) \<longrightarrow>
        print_args env args
          = Inr (''('' @ str_join '', '' (map (\<lambda>(arg_name, arg). print_input_value env arg_name arg) args)
                 @ '')''))
   \<and> (args \<noteq> [] \<and> (\<exists>(arg_name, arg) \<in> set args. desc_truthy (arg_description arg)) \<longrightarrow>
        (\<exists>lines. print_args env args
                    = Inr (''('' @ [chr_nl] @ str_join [chr_nl] lines @ [chr_nl] @ '')'')
           \<and> map Inr lines = map (input_value_line env) (enumerate 0 args)))"
    by (rule print_args_forms)
  show ?thesis
    using entry layout brace shapes lines args by (elim conjE, intro conjI)
qed

theorem print_schema_layout_witness:
  "\<not> (\<exists>(typename, t) \<in> set (type_map sample_schema). is_defined_type typename \<and> \<not> printable t)
   \<and> print_schema sample_env sample_schema
       = Inr (str_join [chr_nl, chr_nl]
            [str_join [chr_nl]
               [''schema {'',
                ''  query: Query'',
                ''}''],
             ''directive @limit(max: Int = 3) on FIELD | QUERY'',
             str_join [chr_nl]
               [''enum Color {'',
                ''  BLUE'',
                [],
                ''  '' @ triple_quote @ ''green'' @ triple_quote,
                ''  GREEN @deprecated(reason: '' @ [chr_dq] @ ''use GREEN2'' @ [chr_dq] @ '')'',
                ''}''],
             ''scalar Date'',
             str_join [chr_nl]
               [''input Filter {'',
                ''  max: Int'',
                [],
                ''  '' @ triple_quote @ ''Lower bound.'' @ triple_quote,
                ''  min: Int = 0'',
                ''}''],
             str_join [chr_nl]
               [triple_quote @ ''An object with an id.'' @ triple_quote,
                ''interface Node {'',
                ''  id: ID!'',
                ''}''],
             str_join [chr_nl]
               [''type Query {'',
                ''  hello: String'',
                [],
                ''  '' @ triple_quote @ ''Looks a node up.'' @ triple_quote,
                ''  node('',
                ''  '' @ triple_quote @ ''Page size.'' @ triple_quote,
                ''  first: Int = 10'',
                [],
                ''  '' @ triple_quote @ ''The id.'' @ triple_quote,
                ''  id: ID!'',
                ''): Node @deprecated'',
                ''}'']]
          @ [chr_nl])
   \<and> \<not> (\<exists>b \<in> set
            [str_join [chr_nl]
               [''schema {'',
                ''  query: Query'',
                ''}''],
             ''directive @limit(max: Int = 3) on FIELD | QUERY'',
             str_join [chr_nl]
               [''enum Color {'',
                ''  BLUE'',
                [],
                ''  '' @ triple_quote @ ''green'' @ triple_quote,
                ''  GREEN @deprecated(reason: '' @ [chr_dq] @ ''use GREEN2'' @ [chr_dq] @ '')'',
                ''}''],
             ''scalar Date'',
             str_join [chr_nl]
               [''input Filter {'',
                ''  max: Int'',
                [],
                ''  '' @ triple_quote @ ''Lower bound.'' @ triple_quote,
                ''  min: Int = 0'',
                ''}''],
             str_join [chr_nl]
               [triple_quote @ ''An object with an id.'' @ triple_quote,
                ''interface Node {'',
                ''  id: ID!'',
                ''}''],
             str_join [chr_nl]
               [''type Query {'',
                ''  hello: String'',
                [],
                ''  '' @ triple_quote @ ''Looks a node up.'' @ triple_quote,
                ''  node('',
                ''  '' @ triple_quote @ ''Page size.'' @ triple_quote,
                ''  first: Int = 10'',
                [],
                ''  '' @ triple_quote @ ''The id.'' @ triple_quote,
                ''  id: ID!'',
                ''): Node @deprecated'',
                ''}'']].
          b = [] \<or> hd b = chr_nl \<or> last b = chr_nl)
   \<and> (\<exists>ds ts dblocks tblocks blocks.
           blocks = print_schema_definition sample_schema # dblocks @ tblocks
           \<and> print_filtered_schema sample_env sample_schema (\<lambda>n. \<not> is_spec_directive n) is_defined_type
               = Inr (str_join [chr_nl, chr_nl] blocks @ [chr_nl])
           \<and> ds = filter (\<lambda>d. \<not> is_spec_directive (dir_name d)) (directives sample_schema)
           \<and> map Inr dblocks = map (print_directive sample_env) ds
           \<and> mset ts = filter_mset (\<lambda>(typename, t). is_defined_type typename) (mset (type_map sample_schema))
           \<and> sorted (map fst ts)
           \<and> map Inr tblocks = map (\<lambda>(typename, t). print_type sample_env t) ts
           \<and> (\<forall>b \<in> set blocks. b \<noteq> [] \<and> hd b \<noteq> chr_nl)
           \<and> (\<forall>i. Suc i < length blocks \<and> last (blocks ! i) \<noteq> chr_nl \<longrightarrow>
                 str_join [chr_nl, chr_nl] blocks
                   = str_join [chr_nl, chr_nl] (take (Suc i) blocks) @ [chr_nl, chr_nl]
                     @ str_join [chr_nl, chr_nl] (drop (Suc i) blocks)
                 \<and> str_join [chr_nl, chr_nl] (take (Suc i) blocks) \<noteq> []
                 \<and> last (str_join [chr_nl, chr_nl] (take (Suc i) blocks)) \<noteq> chr_nl
                 \<and> str_join [chr_nl, chr_nl] (drop (Suc i) blocks) \<noteq> []
                 \<and> hd (str_join [chr_nl, chr_nl] (drop (Suc i) blocks)) \<noteq> chr_nl)
           \<and> (last (last blocks) \<noteq> chr_nl \<longrightarrow>
                 str_join [chr_nl, chr_nl] blocks \<noteq> []
                 \<and> last (str_join [chr_nl, chr_nl] blocks) \<noteq> chr_nl))
   \<and> [(''if'', \<lparr>arg_type = ''Boolean!'', arg_default_value = None, arg_description = None\<rparr>),
       (''max'', \<lparr>arg_type = ''Int'', arg_default_value = Some (PyInt 3),
                  arg_description = None\<rparr>)] \<noteq> []
   \<and> \<not> (\<exists>(arg_name, arg) \<in> set
      [(''if'', \<lparr>arg_type = ''Boolean!'', arg_default_value = None, arg_description = None\<rparr>),
       (''max'', \<lparr>arg_type = ''Int'', arg_default_value = Some (PyInt 3),
                  arg_description = None\<rparr>)]. desc_truthy (arg_description arg))
   \<and> print_args sample_env
      [(''if'', \<lparr>arg_type = ''Boolean!'', arg_default_value = None, arg_description = None\<rparr>),
       (''max'', \<lparr>arg_type = ''Int'', arg_default_value = Some (PyInt 3),
                  arg_description = None\<rparr>)]
       = Inr ''(if: Boolean!, max: Int = 3)''
   \<and> [(''first'', \<lparr>arg_type = ''Int'', arg_default_value = Some (PyInt 10),
                   arg_description = Some (DescStr ''Page size.'')\<rparr>),
       (''id'', \<lparr>arg_type = ''ID!'', arg_default_value = None,
                 arg_description = Some (DescStr ''The id.'')\<rparr>)] \<noteq> []
   \<and> (\<exists>(arg_name, arg) \<in> set
      [(''first'', \<lparr>arg_type = ''Int'', arg_default_value = Some (PyInt 10),
                   arg_description = Some (DescStr ''Page size.'')\<rparr>),
       (''id'', \<lparr>arg_type = ''ID!'', arg_default_value = None,
                 arg_description = Some (DescStr ''The id.'')\<rparr>)]. desc_truthy (arg_description arg))
   \<and> print_args sample_env
      [(''first'', \<lparr>arg_type = ''Int'', arg_default_value = Some (PyInt 10),
                   arg_description = Some (DescStr ''Page size.'')\<rparr>),
       (''id'', \<lparr>arg_type = ''ID!'', arg_default_value = None,
                 arg_description = Some (DescStr ''The id.'')\<rparr>)]
       = Inr (str_join [chr_nl]
              [''('',
               ''  '' @ triple_quote @ ''Page size.'' @ triple_quote,
               ''  first: Int = 10'',
               [],
               ''  '' @ triple_quote @ ''The id.'' @ triple_quote,
               ''  id: ID!'',
               '')''])
   \<and> (\<exists>lines. print_args sample_env
      [(''first'', \<lparr>arg_type = ''Int'', arg_default_value = Some (PyInt 10),
                   arg_description = Some (DescStr ''Page size.'')\<rparr>),
       (''id'', \<lparr>arg_type = ''ID!'', arg_default_value = None,
                 arg_description = Some (DescStr ''The id.'')\<rparr>)]
         = Inr (''('' @ [chr_nl] @ str_join [chr_nl] lines @ [chr_nl] @ '')'')
       \<and> map Inr lines = map (input_value_line sample_env) (enumerate 0
      [(''first'', \<lparr>arg_type = ''Int'', arg_default_value = Some (PyInt 10),
                   arg_description = Some (DescStr ''Page size.'')\<rparr>),
       (''id'', \<lparr>arg_type = ''ID!'', arg_default_value = None,
                 arg_description = Some (DescStr ''The id.'')\<rparr>)]))"
proof -
  let ?A1 = "[(''if'', \<lparr>arg_type = ''Boolean!'', arg_default_value = None, arg_description = None\<rparr>),
       (''max'', \<lparr>arg_type = ''Int'', arg_default_value = Some (PyInt 3),
                  arg_description = None\<rparr>)]"
  let ?A2 = "[(''first'', \<lparr>arg_type = ''Int'', arg_default_value = Some (PyInt 10),
                   arg_description = Some (DescStr ''Page size.'')\<rparr>),
       (''id'', \<lparr>arg_type = ''ID!'', arg_default_value = None,
                 arg_description = Some (DescStr ''The id.'')\<rparr>)]"
  have h1: "\<forall>(typename, t) \<in> set (type_map sample_schema). is_defined_type typename \<longrightarrow> printable t"
    by (simp add: sample_schema_def)
  have h2: "?A1 \<noteq> [] \<and> \<not> (\<exists>(arg_name, arg) \<in> set ?A1. desc_truthy (arg_description arg))"
    by (simp add: desc_truthy_def)
  have h3: "?A2 \<noteq> [] \<and> (\<exists>(arg_name, arg) \<in> set ?A2. desc_truthy (arg_description arg))"
    by (simp add: desc_truthy_def)
  have v1: "print_args sample_env ?A1 = Inr ''(if: Boolean!, max: Int = 3)''"
    by code_simp
  have v2: "print_args sample_env ?A2
       = Inr (str_join [chr_nl]
              [''('',
               ''  '' @ triple_quote @ ''Page size.'' @ triple_quote,
               ''  first: Int = 10'',
               [],
               ''  '' @ triple_quote @ ''The id.'' @ triple_quote,
               ''  id: ID!'',
               '')''])"
    by code_simp
  have o: "print_schema sample_env sample_schema
       = Inr (str_join [chr_nl, chr_nl]
            [str_join [chr_nl]
               [''schema {'',
                ''  query: Query'',
                ''}''],
             ''directive @limit(max: Int = 3) on FIELD | QUERY'',
             str_join [chr_nl]
               [''enum Color {'',
                ''  BLUE'',
                [],
                ''  '' @ triple_quote @ ''green'' @ triple_quote,
                ''  GREEN @deprecated(reason: '' @ [chr_dq] @ ''use GREEN2'' @ [chr_dq] @ '')'',
                ''}''],
             ''scalar Date'',
             str_join [chr_nl]
               [''input Filter {'',
                ''  max: Int'',
                [],
                ''  '' @ triple_quote @ ''Lower bound.'' @ triple_quote,
                ''  min: Int = 0'',
                ''}''],
             str_join [chr_nl]
               [triple_quote @ ''An object with an id.'' @ triple_quote,
                ''interface Node {'',
                ''  id: ID!'',
                ''}''],
             str_join [chr_nl]
               [''type Query {'',
                ''  hello: String'',
                [],
                ''  '' @ triple_quote @ ''Looks a node up.'' @ triple_quote,
                ''  node('',
                ''  '' @ triple_quote @ ''Page size.'' @ triple_quote,
                ''  first: Int = 10'',
                [],
                ''  '' @ triple_quote @ ''The id.'' @ triple_quote,
                ''  id: ID!'',
                ''): Node @deprecated'',
                ''}'']]
          @ [chr_nl])"
    by code_simp
  have e: "\<not> (\<exists>b \<in> set
            [str_join [chr_nl]
               [''schema {'',
                ''  query: Query'',
                ''}''],
             ''directive @limit(max: Int = 3) on FIELD | QUERY'',
             str_join [chr_nl]
               [''enum Color {'',
                ''  BLUE'',
                [],
                ''  '' @ triple_quote @ ''green'' @ triple_quote,
                ''  GREEN @deprecated(reason: '' @ [chr_dq] @ ''use GREEN2'' @ [chr_dq] @ '')'',
                ''}''],
             ''scalar Date'',
             str_join [chr_nl]
               [''input Filter {'',
                ''  max: Int'',
                [],
                ''  '' @ triple_quote @ ''Lower bound.'' @ triple_quote,
                ''  min: Int = 0'',
                ''}''],
             str_join [chr_nl]
               [triple_quote @ ''An object with an id.'' @ triple_quote,
                ''interface Node {'',
                ''  id: ID!'',
                ''}''],
             str_join [chr_nl]
               [''type Query {'',
                ''  hello: String'',
                [],
                ''  '' @ triple_quote @ ''Looks a node up.'' @ triple_quote,
                ''  node('',
                ''  '' @ triple_quote @ ''Page size.'' @ triple_quote,
                ''  first: Int = 10'',
                [],
                ''  '' @ triple_quote @ ''The id.'' @ triple_quote,
                ''  id: ID!'',
                ''): Node @deprecated'',
                ''}'']].
          b = [] \<or> hd b = chr_nl \<or> last b = chr_nl)"
    by code_simp
  note a = print_schema_layout[of sample_env sample_schema is_defined_type
             "\<lambda>n. \<not> is_spec_directive n" None "[]" _ _ "[]" "[]" "[]" "[]" _ _
             "\<lparr>dir_name = [], dir_description = None, dir_args = [], dir_locations = []\<rparr>"
             "\<lparr>field_type = [], field_args = [], field_deprecation_reason = None,
               field_description = None\<rparr>" 0 "[]"
             "\<lparr>arg_type = [], arg_default_value = None, arg_description = None\<rparr>" "[]"
             "\<lparr>value_name = [], value_description = None, value_deprecation_reason = None\<rparr>"]
  have l: "(\<exists>ds ts dblocks tblocks blocks.
           blocks = print_schema_definition sample_schema # dblocks @ tblocks
           \<and> print_filtered_schema sample_env sample_schema (\<lambda>n. \<not> is_spec_directive n) is_defined_type
               = Inr (str_join [chr_nl, chr_nl] blocks @ [chr_nl])
           \<and> ds = filter (\<lambda>d. \<not> is_spec_directive (dir_name d)) (directives sample_schema)
           \<and> map Inr dblocks = map (print_directive sample_env) ds
           \<and> mset ts = filter_mset (\<lambda>(typename, t). is_defined_type typename) (mset (type_map sample_schema))
           \<and> sorted (map fst ts)
           \<and> map Inr tblocks = map (\<lambda>(typename, t). print_type sample_env t) ts
           \<and> (\<forall>b \<in> set blocks. b \<noteq> [] \<and> hd b \<noteq> chr_nl)
           \<and> (\<forall>i. Suc i < length blocks \<and> last (blocks ! i) \<noteq> chr_nl \<longrightarrow>
                 str_join [chr_nl, chr_nl] blocks
                   = str_join [chr_nl, chr_nl] (take (Suc i) blocks) @ [chr_nl, chr_nl]
                     @ str_join [chr_nl, chr_nl] (drop (Suc i) blocks)
                 \<and> str_join [chr_nl, chr_nl] (take (Suc i) blocks) \<noteq> []
                 \<and> last (str_join [chr_nl, chr_nl] (take (Suc i) blocks)) \<noteq> chr_nl
                 \<and> str_join [chr_nl, chr_nl] (drop (Suc i) blocks) \<noteq> []
                 \<and> hd (str_join [chr_nl, chr_nl] (drop (Suc i) blocks)) \<noteq> chr_nl)
           \<and> (last (last blocks) \<noteq> chr_nl \<longrightarrow>
                 str_join [chr_nl, chr_nl] blocks \<noteq> []
                 \<and> last (str_join [chr_nl, chr_nl] blocks) \<noteq> chr_nl))"
    using a[of _ _ _ _ ?A1] h1 by blast
  have m: "\<exists>lines. print_args sample_env ?A2
         = Inr (''('' @ [chr_nl] @ str_join [chr_nl] lines @ [chr_nl] @ '')'')
       \<and> map Inr lines = map (input_value_line sample_env) (enumerate 0 ?A2)"
    using a[of _ _ _ _ ?A2] h3 by blast
  have h1': "\<not> (\<exists>(typename, t) \<in> set (type_map sample_schema).
                  is_defined_type typename \<and> \<not> printable t)"
    using h1 by blast
  show ?thesis
    using h1' o e l h2[THEN conjunct1] h2[THEN conjunct2] v1 h3[THEN conjunct1]
      h3[THEN conjunct2] v2 m
    by (intro conjI)
qed

text \<open>A directive whose last location ends in a line feed: every type of the schema is
  printed, and three line feeds, which make two blank lines, separate the block of the
  directive from the block of the type after it.\<close>

theorem print_schema_layout_counterexample:
  "\<not> (\<exists>(typename, t) \<in> set (type_map stray_newline_schema).
         is_defined_type typename \<and> \<not> printable t)
   \<and> print_schema sample_env stray_newline_schema
       = Inr (''schema {'' @ [chr_nl] @ ''  query: Query'' @ [chr_nl] @ ''}''
              @ [chr_nl, chr_nl]
              @ ''directive @tag on FIELD'' @ [chr_nl]
              @ [chr_nl, chr_nl]
              @ ''type Query {'' @ [chr_nl] @ ''  hello: String'' @ [chr_nl] @ ''}''
              @ [chr_nl])"
  by code_simp

end
